theory Spec2Isabelle
  imports Main "HOL-Library.Word"
begin

section \<open>Strings\<close>

text \<open>
  A JavaScript string is a sequence of UTF-16 code units. The regular expression of
  \<open>removeSqlStrMetaSync\<close> has neither the \<open>u\<close> nor the \<open>s\<close> flag, so its \<open>.\<close> consumes one
  code unit that is not a line terminator (U+000A, U+000D, U+2028, U+2029).
  \<open>utf16\<close> writes an ASCII literal of the source as code units.
\<close>

type_synonym jschar = "16 word"
type_synonym jsstring = "jschar list"

definition utf16 :: "string \<Rightarrow> jsstring" where
  "utf16 s = map of_char s"

definition LF :: jschar where
  "LF = 0x000A"

definition CR :: jschar where
  "CR = 0x000D"

definition isLineTerminator :: "jschar \<Rightarrow> bool" where
  "isLineTerminator c = (c = 0x000A \<or> c = 0x000D \<or> c = 0x2028 \<or> c = 0x2029)"

section \<open>The sanitizer: \<open>removeSqlStrMetaSync\<close>\<close>

text \<open>
  \<^verbatim>\<open>
  function removeSqlStrMetaSync(origSqlStr) {
    const regex = /\/\*\!.+\*\/;(\r?\n)*/g;
    return origSqlStr.replace(regex, "");
  }
  \<close>
  The pattern is the sequence of the literal \<open>/*!\<close>, the greedy \<open>.+\<close>, the literal \<open>*/;\<close>
  and the greedy \<open>(\r?\n)*\<close>. Each matcher below returns the input that is left after the
  part it consumed, or \<open>None\<close> when it fails.
\<close>

text \<open>A literal: the input must start with it.\<close>

fun matchLiteral :: "jsstring \<Rightarrow> jsstring \<Rightarrow> jsstring option" where
  "matchLiteral [] s = Some s"
| "matchLiteral (p # ps) [] = None"
| "matchLiteral (p # ps) (c # cs) = (if p = c then matchLiteral ps cs else None)"

text \<open>
  \<open>(\r?\n)*\<close>: as many iterations as possible. One iteration takes \<open>\r\n\<close>, or \<open>\n\<close> alone;
  a \<open>\r\<close> with no \<open>\n\<close> behind it makes the iteration fail and ends the star. Nothing
  follows the star in the pattern, so it is never backtracked.
\<close>

fun matchNewlines :: "jsstring \<Rightarrow> jsstring" where
  "matchNewlines [] = []"
| "matchNewlines [c] = (if c = 0x000A then [] else [c])"
| "matchNewlines (c # d # r) =
     (if c = 0x000D \<and> d = 0x000A then matchNewlines r
      else if c = 0x000A then matchNewlines (d # r)
      else c # d # r)"

text \<open>
  \<open>.+\<close> followed by the rest of the pattern. The greedy quantifier first takes every code
  unit up to the next line terminator, then gives them back one at a time, down to one,
  until \<open>*/;\<close> matches behind it. \<open>matchDotPlus k t\<close> tries \<open>k\<close>, \<open>k - 1\<close>, ..., \<open>1\<close>
  code units of \<open>t\<close>.
\<close>

fun matchDotPlus :: "nat \<Rightarrow> jsstring \<Rightarrow> jsstring option" where
  "matchDotPlus 0 t = None"
| "matchDotPlus (Suc k) t =
     (case matchLiteral (utf16 ''*/;'') (drop (Suc k) t) of
        Some r \<Rightarrow> Some (matchNewlines r)
      | None \<Rightarrow> matchDotPlus k t)"

text \<open>The whole pattern, tried at the start of \<open>s\<close>.\<close>

definition matchAt :: "jsstring \<Rightarrow> jsstring option" where
  "matchAt s =
     (case matchLiteral (utf16 ''/*!'') s of
        None \<Rightarrow> None
      | Some t \<Rightarrow> matchDotPlus (length (takeWhile (\<lambda>c. \<not> isLineTerminator c) t)) t)"

lemma matchLiteral_Some: "matchLiteral p s = Some r \<Longrightarrow> s = p @ r"
  by (induction p s rule: matchLiteral.induct) (auto split: if_splits)

lemma matchLiteral_append: "matchLiteral p (p @ r) = Some r"
  by (induction p) auto

lemma matchNewlines_length: "length (matchNewlines s) \<le> length s"
  by (induction s rule: matchNewlines.induct) auto

lemma matchDotPlus_length: "matchDotPlus k t = Some r \<Longrightarrow> length r \<le> length t"
proof (induction k)
  case 0
  then show ?case by simp
next
  case (Suc k)
  show ?case
  proof (cases "matchLiteral (utf16 ''*/;'') (drop (Suc k) t)")
    case None
    with Suc show ?thesis by simp
  next
    case (Some q)
    then have "drop (Suc k) t = utf16 ''*/;'' @ q"
      by (rule matchLiteral_Some)
    then have "length q \<le> length (drop (Suc k) t)"
      by simp
    moreover have "r = matchNewlines q"
      using Suc.prems Some by simp
    ultimately show ?thesis
      using matchNewlines_length [of q] by simp
  qed
qed

lemma matchAt_shorter: "matchAt s = Some r \<Longrightarrow> length r < length s"
proof -
  assume m: "matchAt s = Some r"
  then obtain t where t: "matchLiteral (utf16 ''/*!'') s = Some t"
    and d: "matchDotPlus (length (takeWhile (\<lambda>c. \<not> isLineTerminator c) t)) t = Some r"
    by (auto simp: matchAt_def split: option.splits)
  from t have "s = utf16 ''/*!'' @ t"
    by (rule matchLiteral_Some)
  then have "length t < length s"
    by (simp add: utf16_def)
  with matchDotPlus_length [OF d] show ?thesis
    by simp
qed

text \<open>
  \<open>replace\<close> with a global pattern and the empty replacement: the pattern is tried at
  every position from left to right; where it matches, the matched part is dropped and
  the search goes on behind it (a match is never empty); where it does not, the code
  unit is kept.
\<close>

function removeSqlStrMetaSync :: "jsstring \<Rightarrow> jsstring" where
  "removeSqlStrMetaSync [] = []"
| "removeSqlStrMetaSync (c # cs) =
     (case matchAt (c # cs) of
        Some rest \<Rightarrow> removeSqlStrMetaSync rest
      | None \<Rightarrow> c # removeSqlStrMetaSync cs)"
  by pat_completeness auto
termination
  by (relation "measure length") (auto dest: matchAt_shorter)

section \<open>The set reconciler\<close>

text \<open>
  A JavaScript \<open>Set\<close> keeps its elements in insertion order and ignores the insertion of
  an element it has; it is modelled by the list of its elements in insertion order.
\<close>

definition set_has :: "'a list \<Rightarrow> 'a \<Rightarrow> bool" where
  "set_has s x = (x \<in> set s)"

definition set_add :: "'a list \<Rightarrow> 'a \<Rightarrow> 'a list" where
  "set_add s x = (if set_has s x then s else s @ [x])"

text \<open>
  \<^verbatim>\<open>
  function mergeTwoListsSync(firstOperandList, secondOperandList) {
    let resultSet = new Set();
    firstOperandList.map(function(eleVal) { resultSet.add(eleVal); });
    secondOperandList.map(function(eleVal) {
      if (resultSet.has(eleVal)) return;
      resultSet.add(eleVal);
    });
    return [...resultSet];
  }
  \<close>
\<close>

definition mergeTwoListsSync :: "'a list \<Rightarrow> 'a list \<Rightarrow> 'a list" where
  "mergeTwoListsSync firstOperandList secondOperandList =
     (let resultSet = fold (\<lambda>eleVal s. set_add s eleVal) firstOperandList [];
          resultSet = fold (\<lambda>eleVal s. if set_has s eleVal then s else set_add s eleVal)
                        secondOperandList resultSet
      in resultSet)"

text \<open>
  \<^verbatim>\<open>
  function getExclusiveImageRemoteNameListInFirstOperandSync(firstOperandList, secondOperandList) {
    let secondSet = new Set();
    secondOperandList.map(function(eleVal) { secondSet.add(eleVal); });
    let resultList = [];
    firstOperandList.map(function(eleVal) {
      if (secondSet.has(eleVal)) return;
      resultList.push(eleVal);
    });
    return resultList;
  }
  \<close>
\<close>

definition getExclusiveImageRemoteNameListInFirstOperandSync :: "'a list \<Rightarrow> 'a list \<Rightarrow> 'a list" where
  "getExclusiveImageRemoteNameListInFirstOperandSync firstOperandList secondOperandList =
     (let secondSet = fold (\<lambda>eleVal s. set_add s eleVal) secondOperandList []
      in fold (\<lambda>eleVal resultList. if set_has secondSet eleVal then resultList
                                   else resultList @ [eleVal])
           firstOperandList [])"

text \<open>
  The three lists \<open>runPush\<close> computes from the file-defined names \<open>A\<close>
  (\<open>versionControlledTableNameList\<close>) and the live names \<open>B\<close> (\<open>livedbTableNameList\<close>):
  \<^verbatim>\<open>
  mergedTableNameList = mergeTwoListsSync(versionControlledTableNameList, livedbTableNameList);
  exclusiveVersionControlledTableNameList =
    getExclusiveImageRemoteNameListInFirstOperandSync(versionControlledTableNameList, livedbTableNameList);
  exclusiveLivedbTableNameList =
    getExclusiveImageRemoteNameListInFirstOperandSync(livedbTableNameList, versionControlledTableNameList);
  \<close>
\<close>

definition merged :: "'a list \<Rightarrow> 'a list \<Rightarrow> 'a list" where
  "merged A B = mergeTwoListsSync A B"

definition onlyInFiles :: "'a list \<Rightarrow> 'a list \<Rightarrow> 'a list" where
  "onlyInFiles A B = getExclusiveImageRemoteNameListInFirstOperandSync A B"

definition onlyLive :: "'a list \<Rightarrow> 'a list \<Rightarrow> 'a list" where
  "onlyLive A B = getExclusiveImageRemoteNameListInFirstOperandSync B A"

text \<open>
  The source has no list of the names in both snapshots: they are the names of the merged
  list that reach the last branch of the script assembler, the one taken when
  \<open>indexOf\<close> finds the name in neither exclusive list.
\<close>

definition inBoth :: "'a list \<Rightarrow> 'a list \<Rightarrow> 'a list" where
  "inBoth A B =
     filter (\<lambda>tableName. \<not> (tableName \<in> set (onlyInFiles A B)) \<and> \<not> (tableName \<in> set (onlyLive A B)))
       (merged A B)"

text \<open>
  The order the specification asks of the merged list: every name once, at the place of
  its first occurrence.
\<close>

definition firstSeen :: "'a list \<Rightarrow> 'a list" where
  "firstSeen xs = rev (remdups (rev xs))"


section \<open>The push run: \<open>runPush\<close>\<close>

subsection \<open>Configuration, outside world and effects\<close>

text \<open>
  The command-line arguments \<open>runPush\<close> reads. \<open>mysqlServerRawPassword\<close> is \<open>None\<close> for
  \<open>null\<close>; \<open>pushScriptExportPath\<close> is \<open>None\<close> for \<open>null\<close> as well; \<open>retainsTmp\<close> is the truth
  value of \<open>args.retainsTmp\<close>; \<open>mysqlServerPort\<close> is the port as \<open>%s\<close> prints it.
\<close>

record config =
  tab :: jsstring
  mysqlServerHost :: jsstring
  mysqlServerPort :: jsstring
  mysqlServerUser :: jsstring
  mysqlServerRawPassword :: "jsstring option"
  mysqlServerLiveDbname :: jsstring
  retainsTmp :: bool
  pushScriptExportPath :: "jsstring option"

text \<open>
  What the databases, the file system and the diff tool answer during one run: the
  table names of \<open>SHOW TABLES\<close> (\<open>None\<close> for an error), whether each statement on the scratch
  connection succeeds, the directory listing (\<open>None\<close> for an error), whether a path is a
  regular file, the contents of a file (\<open>None\<close> when reading throws), whether the statement
  loaded from a file succeeds, the standard output of a \<open>mysqldiff\<close> command, whether the
  script file can be written, whether the push script succeeds on the live connection,
  and whether the final drop of the scratch database succeeds. The file system does not
  change during the run.
\<close>

record world =
  showTables :: "jsstring list option"
  dropDbOk :: bool
  createDbOk :: bool
  useDbOk :: bool
  readdir :: "jsstring list option"
  lstatIsFile :: "jsstring \<Rightarrow> bool"
  readFileSync :: "jsstring \<Rightarrow> jsstring option"
  sourceOk :: "jsstring \<Rightarrow> bool"
  mysqldiffStdout :: "jsstring \<Rightarrow> jsstring"
  writeFileOk :: bool
  pushOk :: bool
  cleanupOk :: bool

text \<open>
  The effects of a run, in the order they happen: a statement sent on the live or on the
  scratch connection, a directory listing, a file read, an external command, a file
  write, a call of \<open>logger.error\<close> or \<open>logger.warn\<close>, and \<open>process.exit\<close>. Calls of
  \<open>logger.info\<close> and \<open>logger.debug\<close> are left out.
\<close>

datatype event =
    LiveQuery jsstring
  | TmpQuery jsstring
  | ReadDir jsstring
  | ReadFile jsstring
  | Exec jsstring
  | WriteFile jsstring jsstring
  | LogError
  | LogWarn jsstring
  | Exit

text \<open>
  A stage of the promise chain yields the effects it performed and its value; \<open>None\<close>
  stands for a thrown error, which rejects the chain. \<open>thenP\<close> is \<open>.then\<close>: the next
  stage runs only when the one before it did not throw.
\<close>

definition thenP :: "event list \<times> 'a option \<Rightarrow> ('a \<Rightarrow> event list \<times> 'b option)
    \<Rightarrow> event list \<times> 'b option" where
  "thenP m f =
     (case m of
        (ev, None) \<Rightarrow> (ev, None)
      | (ev, Some a) \<Rightarrow> (case f a of (ev', r) \<Rightarrow> (ev @ ev', r)))"

definition prepend :: "event list \<Rightarrow> event list \<times> 'a \<Rightarrow> event list \<times> 'a" where
  "prepend pre m = (case m of (ev, r) \<Rightarrow> (pre @ ev, r))"

subsection \<open>Constants and helpers of the script\<close>

text \<open>
  \<^verbatim>\<open>
  const sqlFileDirFullPath = (/\/$/.test(args.tab) ? args.tab : util.format("%s/", args.tab));
  const mysqlServerTmpDbname = 'tmp';
  const dropDbIfExistsStmt = util.format("DROP DATABASE IF EXISTS %s", mysqlServerTmpDbname);
  const createDbStmt = util.format("CREATE DATABASE %s", mysqlServerTmpDbname);
  const useTmpDbStmt = util.format("USE %s", mysqlServerTmpDbname);
  const sqlFilenameRegexp = /\.sql$/;
  \<close>
\<close>

definition endsWith :: "jsstring \<Rightarrow> jsstring \<Rightarrow> bool" where
  "endsWith s suffix = (length suffix \<le> length s \<and> drop (length s - length suffix) s = suffix)"

definition sqlFileDirFullPath :: "config \<Rightarrow> jsstring" where
  "sqlFileDirFullPath cfg = (if endsWith (tab cfg) (utf16 ''/'') then tab cfg else tab cfg @ utf16 ''/'')"

definition mysqlServerTmpDbname :: jsstring where
  "mysqlServerTmpDbname = utf16 ''tmp''"

definition dropDbIfExistsStmt :: jsstring where
  "dropDbIfExistsStmt = utf16 ''DROP DATABASE IF EXISTS '' @ mysqlServerTmpDbname"

definition createDbStmt :: jsstring where
  "createDbStmt = utf16 ''CREATE DATABASE '' @ mysqlServerTmpDbname"

definition useTmpDbStmt :: jsstring where
  "useTmpDbStmt = utf16 ''USE '' @ mysqlServerTmpDbname"

definition sqlFilenameRegexp :: "jsstring \<Rightarrow> bool" where
  "sqlFilenameRegexp s = endsWith s (utf16 ''.sql'')"

text \<open>
  \<^verbatim>\<open>
  function isSqlFileSync(fileFullPath) {
    const isFile = fs.lstatSync(fileFullPath).isFile();
    if (!isFile) { ...; return false; }
    const hasSqlExtension = sqlFilenameRegexp.test(fileFullPath);
    if (!hasSqlExtension) { ...; return false; }
    return true;
  }
  \<close>
\<close>

definition isSqlFileSync :: "world \<Rightarrow> jsstring \<Rightarrow> bool" where
  "isSqlFileSync w fileFullPath =
     (let isFile = lstatIsFile w fileFullPath in
      if \<not> isFile then False
      else let hasSqlExtension = sqlFilenameRegexp fileFullPath in
        if \<not> hasSqlExtension then False
        else True)"

text \<open>
  \<open>path.basename(file, ext)\<close> on a directory entry, which holds no \<open>/\<close>: the entry without
  the extension when it ends with it, the entry itself otherwise.
\<close>

definition basename :: "jsstring \<Rightarrow> jsstring \<Rightarrow> jsstring" where
  "basename file ext =
     (if ext \<noteq> [] \<and> endsWith file ext then take (length file - length ext) file else file)"

text \<open>
  The table names of the schema files (the first loop over \<open>files\<close>):
  \<^verbatim>\<open>
  files.map(function(file) {
    const fileFullPath = (sqlFileDirFullPath + file);
    if (!isSqlFileSync(fileFullPath)) return;
    const tableName = path.basename(file, '.sql');
    versionControlledTableNameList.push(tableName);
  });
  \<close>
\<close>

definition versionControlledTableNameList :: "config \<Rightarrow> world \<Rightarrow> jsstring list \<Rightarrow> jsstring list" where
  "versionControlledTableNameList cfg w files =
     map (\<lambda>file. basename file (utf16 ''.sql''))
       (filter (\<lambda>file. isSqlFileSync w (sqlFileDirFullPath cfg @ file)) files)"

text \<open>
  The command of the structural diff for one table:
  \<^verbatim>\<open>
  if (null == mysqlServerRawPassword) {
    cmdToRun = util.format("mysqldiff --server1=%s@%s:%s --compact --difftype=sql %s.%s:%s.%s",
      mysqlServerUser, mysqlServerHost, mysqlServerPort,
      mysqlServerLiveDbname, tableName, mysqlServerTmpDbname, tableName);
  } else {
    cmdToRun = util.format("mysqldiff --server1=%s:'%s'@%s:%s --compact --difftype=sql %s.%s:%s.%s",
      mysqlServerUser, mysqlServerRawPassword, mysqlServerHost, mysqlServerPort,
      mysqlServerLiveDbname, tableName, mysqlServerTmpDbname, tableName);
  }
  \<close>
\<close>

definition cmdToRun :: "config \<Rightarrow> jsstring \<Rightarrow> jsstring" where
  "cmdToRun cfg tableName =
     (case mysqlServerRawPassword cfg of
        None \<Rightarrow>
          utf16 ''mysqldiff --server1='' @ mysqlServerUser cfg @ utf16 ''@'' @ mysqlServerHost cfg
            @ utf16 '':'' @ mysqlServerPort cfg @ utf16 '' --compact --difftype=sql ''
            @ mysqlServerLiveDbname cfg @ utf16 ''.'' @ tableName @ utf16 '':''
            @ mysqlServerTmpDbname @ utf16 ''.'' @ tableName
      | Some password \<Rightarrow>
          utf16 ''mysqldiff --server1='' @ mysqlServerUser cfg @ utf16 '':'' @ [0x0027] @ password
            @ [0x0027] @ utf16 ''@'' @ mysqlServerHost cfg
            @ utf16 '':'' @ mysqlServerPort cfg @ utf16 '' --compact --difftype=sql ''
            @ mysqlServerLiveDbname cfg @ utf16 ''.'' @ tableName @ utf16 '':''
            @ mysqlServerTmpDbname @ utf16 ''.'' @ tableName)"

subsection \<open>The stages of the chain\<close>

text \<open>
  \<open>SHOW TABLES\<close> on the live connection. On an error the stage logs it and resolves with
  \<open>false\<close>, and \<open>livedbTableNameList\<close> stays empty; otherwise it resolves with \<open>true\<close> and
  the list holds the names in the order reported. The list is a variable of \<open>runPush\<close> in
  the source; here it travels with the value of the stage.
\<close>

definition showTablesStage :: "world \<Rightarrow> event list \<times> (bool \<times> jsstring list) option" where
  "showTablesStage w =
     (case showTables w of
        None \<Rightarrow> ([LiveQuery (utf16 ''SHOW TABLES''), LogError], Some (False, []))
      | Some results \<Rightarrow> ([LiveQuery (utf16 ''SHOW TABLES'')], Some (True, results)))"

text \<open>
  The drop of the scratch database. This stage does not look at \<open>trueOrFalse\<close>:
  \<^verbatim>\<open>
  .then(function(trueOrFalse) {
    return new Promise(function(resolve, reject) {
      connectionTmpDb.query(dropDbIfExistsStmt, function(err, results, fields) {
        if (undefined !== err && null !== err) { logger.error(err); resolve(false); }
        else { ...; resolve(true); }
      });
    });
  })
  \<close>
\<close>

definition dropDbStage :: "world \<Rightarrow> bool \<Rightarrow> event list \<times> bool option" where
  "dropDbStage w trueOrFalse =
     (if dropDbOk w then ([TmpQuery dropDbIfExistsStmt], Some True)
      else ([TmpQuery dropDbIfExistsStmt, LogError], Some False))"

text \<open>
  The creation and the selection of the scratch database, and the directory listing,
  each start with
  \<^verbatim>\<open>
  if (false == trueOrFalse)
    throw new Error();
  \<close>
\<close>

definition createDbStage :: "world \<Rightarrow> bool \<Rightarrow> event list \<times> bool option" where
  "createDbStage w trueOrFalse =
     (if \<not> trueOrFalse then ([], None)
      else if createDbOk w then ([TmpQuery createDbStmt], Some True)
      else ([TmpQuery createDbStmt, LogError], Some False))"

definition useDbStage :: "world \<Rightarrow> bool \<Rightarrow> event list \<times> bool option" where
  "useDbStage w trueOrFalse =
     (if \<not> trueOrFalse then ([], None)
      else if useDbOk w then ([TmpQuery useTmpDbStmt], Some True)
      else ([TmpQuery useTmpDbStmt, LogError], Some False))"

definition readdirStage :: "config \<Rightarrow> world \<Rightarrow> bool \<Rightarrow> event list \<times> jsstring list option option" where
  "readdirStage cfg w trueOrFalse =
     (if \<not> trueOrFalse then ([], None)
      else ([ReadDir (sqlFileDirFullPath cfg)], Some (readdir w)))"

text \<open>
  The loader, \<open>Promise.reduce(files, ..., 0)\<close>: one file after the other.
  \<^verbatim>\<open>
  const fileFullPath = (sqlFileDirFullPath + file);
  if (!isSqlFileSync(fileFullPath)) return ++total;
  const origSqlStr = fs.readFileSync(fileFullPath, "utf8");
  const sqlStr = removeSqlStrMetaSync(origSqlStr);
  return new Promise(function(resolve, reject) {
    connectionTmpDb.query(sqlStr, function(err, results, fields) {
      if (undefined !== err && null !== err) {
        logger.error(err); logger.warn(util.format("Not sourced.")); resolve(false);
      } else { logger.info(util.format("Sourced.")); resolve(true); }
    });
  }).then(function(trueOrFalse) { return ++total; })
  \<close>
\<close>

fun sourceFiles :: "config \<Rightarrow> world \<Rightarrow> jsstring list \<Rightarrow> nat \<Rightarrow> event list \<times> nat option" where
  "sourceFiles cfg w [] total' = ([], Some total')"
| "sourceFiles cfg w (file # files) total' =
     (let fileFullPath = sqlFileDirFullPath cfg @ file in
      if \<not> isSqlFileSync w fileFullPath then sourceFiles cfg w files (Suc total')
      else
        (case readFileSync w fileFullPath of
           None \<Rightarrow> ([ReadFile fileFullPath], None)
         | Some origSqlStr \<Rightarrow>
             (let sqlStr = removeSqlStrMetaSync origSqlStr in
              prepend
                ([ReadFile fileFullPath, TmpQuery sqlStr]
                  @ (if sourceOk w fileFullPath then []
                     else [LogError, LogWarn (utf16 ''Not sourced.'')]))
                (sourceFiles cfg w files (Suc total')))))"

text \<open>
  The script assembler, \<open>Promise.reduce(mergedTableNameList, ..., 0)\<close>. \<open>pushScript\<close> is a
  variable of \<open>runPush\<close> in the source; here it travels with \<open>total\<close>.
  \<^verbatim>\<open>
  if (-1 != exclusiveVersionControlledTableNameList.indexOf(tableName)) {
    const fileFullPath = (sqlFileDirFullPath + tableName + ".sql");
    const origSqlStr = fs.readFileSync(fileFullPath, "utf8");
    const sqlStr = removeSqlStrMetaSync(origSqlStr);
    pushScript += util.format("%s\n", sqlStr);
    return ++total;
  } else if (-1 != exclusiveLivedbTableNameList.indexOf(tableName)) {
    const dropTableIfExistsStmt = util.format("DROP TABLE IF EXISTS %s", tableName);
    pushScript += util.format("%s\n", dropTableIfExistsStmt);
    return ++total;
  } else {
    ...
    child_process.exec(cmdToRun, function(err, stdoutResult, stderrResult) {
      pushScript += util.format("%s\n", stdoutResult);
      resolve(true);
    });
    ... return ++total;
  }
  \<close>
\<close>

fun assemble :: "config \<Rightarrow> world \<Rightarrow> jsstring list \<Rightarrow> jsstring list \<Rightarrow> jsstring list
    \<Rightarrow> nat \<Rightarrow> jsstring \<Rightarrow> event list \<times> (nat \<times> jsstring) option" where
  "assemble cfg w exclusiveVersionControlled exclusiveLivedb [] total' pushScript =
     ([], Some (total', pushScript))"
| "assemble cfg w exclusiveVersionControlled exclusiveLivedb (tableName # rest) total' pushScript =
     (if tableName \<in> set exclusiveVersionControlled then
        (let fileFullPath = sqlFileDirFullPath cfg @ tableName @ utf16 ''.sql'' in
         case readFileSync w fileFullPath of
           None \<Rightarrow> ([ReadFile fileFullPath], None)
         | Some origSqlStr \<Rightarrow>
             (let sqlStr = removeSqlStrMetaSync origSqlStr in
              prepend [ReadFile fileFullPath]
                (assemble cfg w exclusiveVersionControlled exclusiveLivedb rest (Suc total')
                   (pushScript @ sqlStr @ [LF]))))
      else if tableName \<in> set exclusiveLivedb then
        (let dropTableIfExistsStmt = utf16 ''DROP TABLE IF EXISTS '' @ tableName in
         assemble cfg w exclusiveVersionControlled exclusiveLivedb rest (Suc total')
           (pushScript @ dropTableIfExistsStmt @ [LF]))
      else
        (let stdoutResult = mysqldiffStdout w (cmdToRun cfg tableName) in
         prepend [Exec (cmdToRun cfg tableName)]
           (assemble cfg w exclusiveVersionControlled exclusiveLivedb rest (Suc total')
              (pushScript @ stdoutResult @ [LF]))))"

text \<open>
  The stage that receives the listing: it throws on a missing or an empty listing,
  computes the three lists of the reconciliation and runs the loader. The lists are
  variables of \<open>runPush\<close> in the source; here they travel with the value of the stage.
  \<^verbatim>\<open>
  if (undefined === files || null === files) throw new Error();
  if (0 == files.length) throw new Error();
  \<close>
\<close>

definition loadStage :: "config \<Rightarrow> world \<Rightarrow> jsstring list \<Rightarrow> jsstring list option
    \<Rightarrow> event list \<times> (jsstring list \<times> jsstring list \<times> jsstring list) option" where
  "loadStage cfg w livedbTableNameList files =
     (case files of
        None \<Rightarrow> ([], None)
      | Some files \<Rightarrow>
          if length files = 0 then ([], None)
          else
            (let versionControlled = versionControlledTableNameList cfg w files;
                 mergedTableNameList = merged versionControlled livedbTableNameList;
                 exclusiveVersionControlled = onlyInFiles versionControlled livedbTableNameList;
                 exclusiveLivedb = onlyLive versionControlled livedbTableNameList
             in thenP (sourceFiles cfg w files 0)
                  (\<lambda>total'. ([], Some (mergedTableNameList, exclusiveVersionControlled, exclusiveLivedb)))))"

definition assembleStage :: "config \<Rightarrow> world \<Rightarrow> jsstring list \<times> jsstring list \<times> jsstring list
    \<Rightarrow> event list \<times> jsstring option" where
  "assembleStage cfg w nameLists =
     (case nameLists of (mergedTableNameList, exclusiveVersionControlled, exclusiveLivedb) \<Rightarrow>
        thenP (assemble cfg w exclusiveVersionControlled exclusiveLivedb mergedTableNameList 0 [])
          (\<lambda>(total', pushScript). ([], Some pushScript)))"

text \<open>
  The applier: the script is written when the export path is truthy (neither \<open>null\<close> nor
  the empty string), a failure of the write is logged and swallowed; the script is sent on the live connection unless
  \<open>dryRunPush\<close> holds.
  \<^verbatim>\<open>
  if (args.pushScriptExportPath) {
    try { fs.writeFileSync(args.pushScriptExportPath, pushScript, { flag: 'w+' }); }
    catch (exp) { logger.error(exp); }
  }
  return new Promise(function(resolve, reject) {
    if (!dryRunPush) {
      connectionLiveDb.query(pushScript, function(err, results, fields) {
        if (undefined !== err && null !== err) { logger.error(err); resolve(false); }
        else { resolve(true); }
      });
    } else { resolve(true); }
  });
  \<close>
\<close>

definition applyStage :: "config \<Rightarrow> world \<Rightarrow> bool \<Rightarrow> jsstring \<Rightarrow> event list \<times> bool option" where
  "applyStage cfg w dryRunPush pushScript =
     (let written =
        (case pushScriptExportPath cfg of
           None \<Rightarrow> []
         | Some path \<Rightarrow>
             if path = [] then []
             else if writeFileOk w then [WriteFile path pushScript]
             else [WriteFile path pushScript, LogError])
      in if \<not> dryRunPush then
           (if pushOk w then (written @ [LiveQuery pushScript], Some True)
            else (written @ [LiveQuery pushScript, LogError], Some False))
         else (written, Some True))"

text \<open>
  \<^verbatim>\<open>
  .finally(function() {
    if (args.retainsTmp) { process.exit(); }
    else {
      connectionTmpDb.query(dropDbIfExistsStmt, function(err, results, fields) {
        if (undefined !== err && null !== err) { logger.error(err); } else { ... }
        process.exit();
      });
    }
  });
  \<close>
\<close>

definition finallyStage :: "config \<Rightarrow> world \<Rightarrow> event list" where
  "finallyStage cfg w =
     (if retainsTmp cfg then [Exit]
      else if cleanupOk w then [TmpQuery dropDbIfExistsStmt, Exit]
      else [TmpQuery dropDbIfExistsStmt, LogError, Exit])"

text \<open>
  The chain up to the assembled script: its effects, and the script unless a stage threw.
\<close>

definition assemblePipeline :: "config \<Rightarrow> world \<Rightarrow> event list \<times> jsstring option" where
  "assemblePipeline cfg w =
     thenP (showTablesStage w) (\<lambda>(trueOrFalse, livedbTableNameList).
       thenP (dropDbStage w trueOrFalse) (\<lambda>trueOrFalse.
         thenP (createDbStage w trueOrFalse) (\<lambda>trueOrFalse.
           thenP (useDbStage w trueOrFalse) (\<lambda>trueOrFalse.
             thenP (readdirStage cfg w trueOrFalse) (\<lambda>files.
               thenP (loadStage cfg w livedbTableNameList files) (\<lambda>nameLists.
                 assembleStage cfg w nameLists))))))"

text \<open>
  The whole run: the chain, the applier, \<open>.catch\<close> (which logs the error of a stage that
  threw) and \<open>.finally\<close>. The result is the sequence of effects.
\<close>

definition runPush :: "config \<Rightarrow> world \<Rightarrow> bool \<Rightarrow> event list" where
  "runPush cfg w dryRunPush =
     (case thenP (assemblePipeline cfg w) (applyStage cfg w dryRunPush) of
        (ev, None) \<Rightarrow> ev @ [LogError] @ finallyStage cfg w
      | (ev, Some trueOrFalse) \<Rightarrow> ev @ finallyStage cfg w)"

section \<open>The run as the specification describes it\<close>

text \<open>
  The contents of a file that can be read, and the schema file of a table.
\<close>

definition contents :: "world \<Rightarrow> jsstring \<Rightarrow> jsstring" where
  "contents w path = (case readFileSync w path of Some s \<Rightarrow> s | None \<Rightarrow> [])"

definition tableFile :: "config \<Rightarrow> jsstring \<Rightarrow> jsstring" where
  "tableFile cfg tableName = sqlFileDirFullPath cfg @ tableName @ utf16 ''.sql''"

text \<open>
  What the loader does with one entry of the listing, whatever happened to the entries
  before it: nothing when it is not a schema file; otherwise it reads the file and sends
  the sanitized contents to the scratch database, and when that statement fails it logs
  the error and the warning \<open>Not sourced.\<close>
\<close>

definition loadEvents :: "config \<Rightarrow> world \<Rightarrow> jsstring \<Rightarrow> event list" where
  "loadEvents cfg w file =
     (if isSqlFileSync w (sqlFileDirFullPath cfg @ file) then
        [ReadFile (sqlFileDirFullPath cfg @ file),
         TmpQuery (removeSqlStrMetaSync (contents w (sqlFileDirFullPath cfg @ file)))]
        @ (if sourceOk w (sqlFileDirFullPath cfg @ file) then []
           else [LogError, LogWarn (utf16 ''Not sourced.'')])
      else [])"

text \<open>
  The fragment of one table of the merged list, for the file-defined names \<open>A\<close> and the
  live names \<open>B\<close>: the sanitized contents of the table's file when the name is only in
  files, the drop statement when it is only live, the standard output of the external
  diff otherwise; a newline follows in every case.
\<close>

definition fragment :: "config \<Rightarrow> world \<Rightarrow> jsstring list \<Rightarrow> jsstring list \<Rightarrow> jsstring \<Rightarrow> jsstring" where
  "fragment cfg w A B tableName =
     (if tableName \<in> set A \<and> tableName \<notin> set B then
        removeSqlStrMetaSync (contents w (tableFile cfg tableName))
      else if tableName \<in> set B \<and> tableName \<notin> set A then
        utf16 ''DROP TABLE IF EXISTS '' @ tableName
      else mysqldiffStdout w (cmdToRun cfg tableName))
     @ [LF]"

text \<open>The effects of assembling that fragment: a file read, nothing, or the diff command.\<close>

definition fragmentEvents :: "config \<Rightarrow> jsstring list \<Rightarrow> jsstring list \<Rightarrow> jsstring \<Rightarrow> event list" where
  "fragmentEvents cfg A B tableName =
     (if tableName \<in> set A \<and> tableName \<notin> set B then [ReadFile (tableFile cfg tableName)]
      else if tableName \<in> set B \<and> tableName \<notin> set A then []
      else [Exec (cmdToRun cfg tableName)])"

text \<open>
  The live names a run works with, and the effects of a run up to the directory listing
  when the three statements on the scratch connection succeed.
\<close>

definition liveNames :: "world \<Rightarrow> jsstring list" where
  "liveNames w = (case showTables w of None \<Rightarrow> [] | Some results \<Rightarrow> results)"

definition setupEvents :: "config \<Rightarrow> world \<Rightarrow> event list" where
  "setupEvents cfg w =
     fst (showTablesStage w)
     @ [TmpQuery dropDbIfExistsStmt, TmpQuery createDbStmt, TmpQuery useTmpDbStmt,
        ReadDir (sqlFileDirFullPath cfg)]"

text \<open>The statements a sequence of effects sends on the live connection.\<close>

fun liveQueries :: "event list \<Rightarrow> jsstring list" where
  "liveQueries [] = []"
| "liveQueries (LiveQuery q # es) = q # liveQueries es"
| "liveQueries (e # es) = liveQueries es"

section \<open>An example run\<close>

text \<open>
  The schema directory holds \<open>a.sql\<close> and \<open>b.sql\<close>, the live database the tables \<open>b\<close> and
  \<open>c\<close>; \<open>a.sql\<close> starts with a directive of the dump tool.
\<close>

definition exampleConfig :: config where
  "exampleConfig =
     \<lparr>tab = utf16 ''/repo'', mysqlServerHost = utf16 ''localhost'',
      mysqlServerPort = utf16 ''3306'', mysqlServerUser = utf16 ''root'',
      mysqlServerRawPassword = None, mysqlServerLiveDbname = utf16 ''shop'',
      retainsTmp = True, pushScriptExportPath = Some (utf16 ''/out.sql'')\<rparr>"

definition exampleWorld :: world where
  "exampleWorld =
     \<lparr>showTables = Some [utf16 ''b'', utf16 ''c''],
      dropDbOk = True, createDbOk = True, useDbOk = True,
      readdir = Some [utf16 ''a.sql'', utf16 ''b.sql''],
      lstatIsFile = (\<lambda>path. True),
      readFileSync = (\<lambda>path.
        if path = utf16 ''/repo/a.sql''
        then Some (utf16 ''/*!40101 SET a=1 */;'' @ [LF] @ utf16 ''CREATE TABLE a (id INT);'')
        else if path = utf16 ''/repo/b.sql'' then Some (utf16 ''CREATE TABLE b (id INT);'')
        else None),
      sourceOk = (\<lambda>path. True),
      mysqldiffStdout = (\<lambda>cmd. utf16 ''ALTER TABLE b ADD x INT;''),
      writeFileOk = True, pushOk = True, cleanupOk = True\<rparr>"

section \<open>What the specification calls a directive\<close>

text \<open>
  The pattern describes a directive that stays on one line: \<open>/*!\<close>, at least one code unit,
  none of them a line terminator, and \<open>*/;\<close>.
\<close>

definition singleLine :: "jsstring \<Rightarrow> bool" where
  "singleLine s = (\<forall>c\<in>set s. \<not> isLineTerminator c)"

definition containsDirective :: "jsstring \<Rightarrow> bool" where
  "containsDirective s =
     (\<exists>pre body post. s = pre @ utf16 ''/*!'' @ body @ utf16 ''*/;'' @ post
        \<and> body \<noteq> [] \<and> singleLine body)"

text \<open>
  A string made of such directives and of line breaks only (the blank lines that may follow
  a directive).
\<close>

inductive directivesOnly :: "jsstring \<Rightarrow> bool" where
  empty: "directivesOnly []"
| blank: "c = LF \<or> c = CR \<Longrightarrow> directivesOnly s \<Longrightarrow> directivesOnly (c # s)"
| directive: "body \<noteq> [] \<Longrightarrow> singleLine body \<Longrightarrow> directivesOnly s
     \<Longrightarrow> directivesOnly (utf16 ''/*!'' @ body @ utf16 ''*/;'' @ s)"

text \<open>
  The specification's own words, "version-gated comment blocks terminated by \<open>*/;\<close>", do not
  ask for one line: a block starts with \<open>/*!\<close> and ends with \<open>*/;\<close>.
\<close>

definition versionGatedBlock :: "jsstring \<Rightarrow> bool" where
  "versionGatedBlock s =
     (6 \<le> length s \<and> take 3 s = utf16 ''/*!'' \<and> drop (length s - 3) s = utf16 ''*/;'')"

section \<open>Properties of the set reconciler\<close>

lemma fold_set_add_set: "set (fold (\<lambda>eleVal s. set_add s eleVal) xs acc) = set acc \<union> set xs"
  by (induction xs arbitrary: acc) (auto simp: set_add_def set_has_def)

lemma fold_set_add_guarded:
  "fold (\<lambda>eleVal s. if set_has s eleVal then s else set_add s eleVal) xs acc
     = fold (\<lambda>eleVal s. set_add s eleVal) xs acc"
proof -
  have "(\<lambda>eleVal s. if set_has s eleVal then s else set_add s eleVal)
      = (\<lambda>eleVal (s::'a list). set_add s eleVal)"
    by (auto simp: fun_eq_iff set_add_def)
  then show ?thesis by simp
qed

lemma remdups_drop_later: "x \<in> set zs \<Longrightarrow> remdups (ys @ x # zs) = remdups (ys @ zs)"
  by (induction ys) auto

lemma firstSeen_snoc_in: "x \<in> set acc \<Longrightarrow> firstSeen (acc @ x # xs) = firstSeen (acc @ xs)"
  by (simp add: firstSeen_def remdups_drop_later)

lemma firstSeen_distinct_id: "distinct xs \<Longrightarrow> firstSeen xs = xs"
  by (simp add: firstSeen_def distinct_remdups_id)

text \<open>\<open>firstSeen\<close> keeps the head and drops its later occurrences.\<close>

lemma firstSeen_Nil: "firstSeen [] = []"
  by (simp add: firstSeen_def)

lemma remdups_snoc: "remdups (xs @ [x]) = filter (\<lambda>y. y \<noteq> x) (remdups xs) @ [x]"
  by (induction xs) auto

lemma firstSeen_Cons: "firstSeen (x # xs) = x # firstSeen (filter (\<lambda>y. y \<noteq> x) xs)"
  by (simp add: firstSeen_def remdups_snoc remdups_filter rev_filter)

lemma fold_set_add_firstSeen:
  "distinct acc \<Longrightarrow> fold (\<lambda>eleVal s. set_add s eleVal) xs acc = firstSeen (acc @ xs)"
proof (induction xs arbitrary: acc)
  case Nil
  then show ?case by (simp add: firstSeen_distinct_id)
next
  case (Cons x xs)
  show ?case
  proof (cases "x \<in> set acc")
    case True
    with Cons show ?thesis
      by (simp add: set_add_def set_has_def firstSeen_snoc_in)
  next
    case False
    with Cons.prems have "distinct (acc @ [x])" by simp
    from Cons.IH [OF this] False show ?thesis
      by (simp add: set_add_def set_has_def)
  qed
qed

lemma mergeTwoListsSync_firstSeen: "mergeTwoListsSync A B = firstSeen (A @ B)"
proof -
  have a: "fold (\<lambda>eleVal s. set_add s eleVal) A [] = firstSeen A"
    using fold_set_add_firstSeen [of "[]" A] by simp
  have d: "distinct (firstSeen A)"
    by (simp add: firstSeen_def)
  have "mergeTwoListsSync A B = firstSeen (firstSeen A @ B)"
    by (simp add: mergeTwoListsSync_def fold_set_add_guarded a fold_set_add_firstSeen [OF d])
  also have "\<dots> = firstSeen (A @ B)"
    by (simp add: firstSeen_def remdups_append2)
  finally show ?thesis .
qed

lemma exclusive_fold:
  "fold (\<lambda>eleVal resultList. if set_has S eleVal then resultList else resultList @ [eleVal]) xs acc
     = acc @ filter (\<lambda>x. x \<notin> set S) xs"
  by (induction xs arbitrary: acc) (auto simp: set_has_def)

lemma getExclusive_filter:
  "getExclusiveImageRemoteNameListInFirstOperandSync A B = filter (\<lambda>x. x \<notin> set B) A"
  by (simp add: getExclusiveImageRemoteNameListInFirstOperandSync_def exclusive_fold
      fold_set_add_set)

lemma count_list_filter: "count_list (filter P xs) x = (if P x then count_list xs x else 0)"
  by (induction xs) auto

lemma merged_distinct: "distinct (merged A B)"
  by (simp add: merged_def mergeTwoListsSync_firstSeen firstSeen_def)

lemma merged_set: "set (merged A B) = set A \<union> set B"
  by (auto simp: merged_def mergeTwoListsSync_firstSeen firstSeen_def)

lemma onlyInFiles_set: "set (onlyInFiles A B) = set A - set B"
  by (auto simp: onlyInFiles_def getExclusive_filter)

lemma onlyLive_set: "set (onlyLive A B) = set B - set A"
  by (auto simp: onlyLive_def getExclusive_filter)

lemma inBoth_set: "set (inBoth A B) = set A \<inter> set B"
  by (auto simp: inBoth_def merged_set onlyInFiles_set onlyLive_set)

text \<open>
  That no list of the reconciliation holds a name twice is not true of every pair of
  lists. The exclusive lists keep the repetitions of their first operand: with the
  file-defined names \<open>[t, t]\<close> and no live name, \<open>onlyInFiles\<close> holds \<open>t\<close> twice.
\<close>

theorem onlyInFiles_duplicate_counterexample:
  "\<not> distinct (onlyInFiles [utf16 ''t'', utf16 ''t''] ([] :: jsstring list))"
  by (simp add: onlyInFiles_def getExclusive_filter)

text \<open>
  C1, with the exclusive lists free of repetitions when their first operand is. For all
  lists \<open>A\<close> (file-defined) and \<open>B\<close> (live): the merged list holds
  every name of \<open>A\<close> and \<open>B\<close> exactly once, in the order of first occurrence in \<open>A\<close> then \<open>B\<close>;
  the names of \<open>onlyInFiles\<close>, \<open>onlyLive\<close> and \<open>inBoth\<close> together are the names of the merged
  list; the three are pairwise disjoint; \<open>inBoth\<close> holds no name twice; and \<open>onlyInFiles\<close>
  (\<open>onlyLive\<close>) holds no name twice when \<open>A\<close> (\<open>B\<close>) holds none twice.
\<close>

theorem reconciliation_partition:
  "distinct (merged A B) \<and> set (merged A B) = set A \<union> set B
   \<and> merged A B = firstSeen (A @ B)
   \<and> set (onlyInFiles A B) \<union> set (onlyLive A B) \<union> set (inBoth A B) = set (merged A B)
   \<and> set (onlyInFiles A B) \<inter> set (onlyLive A B) = {}
   \<and> set (onlyInFiles A B) \<inter> set (inBoth A B) = {}
   \<and> set (onlyLive A B) \<inter> set (inBoth A B) = {}
   \<and> distinct (inBoth A B)
   \<and> (distinct A \<longrightarrow> distinct (onlyInFiles A B))
   \<and> (distinct B \<longrightarrow> distinct (onlyLive A B))"
proof -
  have "merged A B = firstSeen (A @ B)"
    by (simp add: merged_def mergeTwoListsSync_firstSeen)
  moreover have "distinct (inBoth A B)"
    by (simp add: inBoth_def merged_distinct)
  moreover have "distinct A \<longrightarrow> distinct (onlyInFiles A B)"
    by (simp add: onlyInFiles_def getExclusive_filter)
  moreover have "distinct B \<longrightarrow> distinct (onlyLive A B)"
    by (simp add: onlyLive_def getExclusive_filter)
  moreover have "set (onlyInFiles A B) \<union> set (onlyLive A B) \<union> set (inBoth A B) = set (merged A B)"
    unfolding onlyInFiles_set onlyLive_set inBoth_set merged_set by blast
  moreover have "set (onlyInFiles A B) \<inter> set (onlyLive A B) = {}"
    "set (onlyInFiles A B) \<inter> set (inBoth A B) = {}"
    "set (onlyLive A B) \<inter> set (inBoth A B) = {}"
    unfolding onlyInFiles_set onlyLive_set inBoth_set by blast+
  ultimately show ?thesis
    using merged_distinct [of A B] merged_set [of A B] by simp
qed

theorem reconciliation_partition_witness:
  "distinct [utf16 ''a'', utf16 ''b''] \<and> distinct [utf16 ''b'', utf16 ''c'']
   \<and> merged [utf16 ''a'', utf16 ''b''] [utf16 ''b'', utf16 ''c'']
       = [utf16 ''a'', utf16 ''b'', utf16 ''c'']
   \<and> distinct (onlyInFiles [utf16 ''a'', utf16 ''b''] [utf16 ''b'', utf16 ''c''])
   \<and> distinct (onlyLive [utf16 ''a'', utf16 ''b''] [utf16 ''b'', utf16 ''c''])
   \<and> distinct (inBoth [utf16 ''a'', utf16 ''b''] [utf16 ''b'', utf16 ''c''])"
  using reconciliation_partition [of "[utf16 ''a'', utf16 ''b'']" "[utf16 ''b'', utf16 ''c'']"]
  by (simp add: firstSeen_def utf16_def)

text \<open>
  C6. The exclusive lists are complementary under a swap of the arguments: the names only
  in files of \<open>(A, B)\<close> are the names only live of \<open>(B, A)\<close>. \<open>runPush\<close> computes both with
  the one function, its operands swapped.
\<close>

theorem onlyInFiles_swap: "onlyInFiles A B = onlyLive B A"
  by (simp add: onlyInFiles_def onlyLive_def)

text \<open>
  C9. The exclusive-set computation keeps the repetitions of its first operand: a name
  that is not in the second list is in the result as many times as in the first list, so
  \<open>[t, t]\<close> against the empty list gives \<open>[t, t]\<close>; the result holds no name twice when the
  first list holds none twice.
\<close>

theorem exclusive_keeps_duplicates:
  "count_list (getExclusiveImageRemoteNameListInFirstOperandSync A B) x
     = (if x \<in> set B then 0 else count_list A x)
   \<and> getExclusiveImageRemoteNameListInFirstOperandSync [t, t] [] = [t, t]
   \<and> (distinct A \<longrightarrow> distinct (getExclusiveImageRemoteNameListInFirstOperandSync A B))"
  by (simp add: getExclusive_filter count_list_filter)

theorem exclusive_keeps_duplicates_witness:
  "count_list (getExclusiveImageRemoteNameListInFirstOperandSync [utf16 ''t'', utf16 ''t''] [])
     (utf16 ''t'') = 2
   \<and> distinct [utf16 ''a'', utf16 ''b'']
   \<and> getExclusiveImageRemoteNameListInFirstOperandSync [utf16 ''a'', utf16 ''b''] [utf16 ''b'']
       = [utf16 ''a'']"
  using exclusive_keeps_duplicates [of "[utf16 ''t'', utf16 ''t'']" "[]" "utf16 ''t''"]
    exclusive_keeps_duplicates [of "[utf16 ''a'', utf16 ''b'']" "[utf16 ''b'']"]
  by (simp add: getExclusive_filter utf16_def)

section \<open>Properties of the sanitizer\<close>

lemma matchDotPlus_Some:
  "matchDotPlus k t = Some r \<Longrightarrow>
     \<exists>j q. 1 \<le> j \<and> j \<le> k \<and> drop j t = utf16 ''*/;'' @ q \<and> r = matchNewlines q"
proof (induction k)
  case 0
  then show ?case by simp
next
  case (Suc k)
  show ?case
  proof (cases "matchLiteral (utf16 ''*/;'') (drop (Suc k) t)")
    case None
    with Suc.prems have "matchDotPlus k t = Some r" by simp
    from Suc.IH [OF this] obtain j q where
      "1 \<le> j" "j \<le> k" "drop j t = utf16 ''*/;'' @ q" "r = matchNewlines q"
      by blast
    then have "1 \<le> j \<and> j \<le> Suc k \<and> drop j t = utf16 ''*/;'' @ q \<and> r = matchNewlines q"
      by simp
    then show ?thesis by blast
  next
    case (Some q)
    then have "drop (Suc k) t = utf16 ''*/;'' @ q"
      by (rule matchLiteral_Some)
    moreover have "r = matchNewlines q"
      using Suc.prems Some by simp
    ultimately have "1 \<le> Suc k \<and> Suc k \<le> Suc k \<and> drop (Suc k) t = utf16 ''*/;'' @ q
        \<and> r = matchNewlines q"
      by simp
    then show ?thesis by blast
  qed
qed

lemma take_takeWhile_free:
  assumes "j \<le> length (takeWhile P t)"
  shows "\<forall>c\<in>set (take j t). P c"
proof -
  have "take j t = take j (takeWhile P t)"
    using assms by (metis takeWhile_dropWhile_id take_append diff_is_0_eq take_0 append_Nil2)
  then show ?thesis
    by (metis in_set_takeD set_takeWhileD)
qed

lemma matchAt_Some_directive:
  assumes "matchAt s = Some r"
  shows "\<exists>body post. s = utf16 ''/*!'' @ body @ utf16 ''*/;'' @ post
           \<and> body \<noteq> [] \<and> singleLine body"
proof -
  from assms obtain t where t: "matchLiteral (utf16 ''/*!'') s = Some t"
    and d: "matchDotPlus (length (takeWhile (\<lambda>c. \<not> isLineTerminator c) t)) t = Some r"
    by (auto simp: matchAt_def split: option.splits)
  from t have s: "s = utf16 ''/*!'' @ t"
    by (rule matchLiteral_Some)
  from matchDotPlus_Some [OF d] obtain j q where
    j: "1 \<le> j" "j \<le> length (takeWhile (\<lambda>c. \<not> isLineTerminator c) t)"
    and q: "drop j t = utf16 ''*/;'' @ q"
    by blast
  have "t = take j t @ utf16 ''*/;'' @ q"
    using q by (metis append_take_drop_id)
  moreover have "take j t \<noteq> []"
    using j by auto
  moreover have "singleLine (take j t)"
    unfolding singleLine_def using take_takeWhile_free [OF j(2)] .
  ultimately show ?thesis
    using s by blast
qed

lemma containsDirective_Cons: "containsDirective cs \<Longrightarrow> containsDirective (c # cs)"
  unfolding containsDirective_def
  by (metis append_Cons)

lemma matchAt_containsDirective: "matchAt s = Some r \<Longrightarrow> containsDirective s"
  unfolding containsDirective_def
  using matchAt_Some_directive by (metis append_Nil)

lemma removeSqlStrMetaSync_id: "\<not> containsDirective s \<Longrightarrow> removeSqlStrMetaSync s = s"
proof (induction s rule: removeSqlStrMetaSync.induct)
  case 1
  then show ?case by simp
next
  case (2 c cs)
  have n: "matchAt (c # cs) = None"
    using "2.prems" matchAt_containsDirective by (cases "matchAt (c # cs)") auto
  have "\<not> containsDirective cs"
    using "2.prems" containsDirective_Cons by blast
  with "2.IH"(1) [OF n] n show ?case by simp
qed

text \<open>
  The pattern matches at the start of every string that starts with a directive, so the
  strings the sanitizer leaves unchanged are exactly those that contain no directive.
\<close>

lemma matchDotPlus_complete:
  "1 \<le> j \<Longrightarrow> j \<le> k \<Longrightarrow> matchLiteral (utf16 ''*/;'') (drop j t) \<noteq> None
     \<Longrightarrow> matchDotPlus k t \<noteq> None"
proof (induction k)
  case 0
  then show ?case by simp
next
  case (Suc k)
  show ?case
  proof (cases "j = Suc k")
    case True
    with Suc.prems(3) show ?thesis by auto
  next
    case False
    with Suc.prems have "j \<le> k" by simp
    from Suc.IH [OF Suc.prems(1) this Suc.prems(3)] show ?thesis
      by (auto split: option.splits)
  qed
qed

lemma matchAt_complete:
  assumes "body \<noteq> []" "singleLine body"
  shows "matchAt (utf16 ''/*!'' @ body @ utf16 ''*/;'' @ post) \<noteq> None"
proof -
  let ?t = "body @ utf16 ''*/;'' @ post"
  have "takeWhile (\<lambda>c. \<not> isLineTerminator c) ?t
      = body @ takeWhile (\<lambda>c. \<not> isLineTerminator c) (utf16 ''*/;'' @ post)"
    using assms(2) by (simp add: singleLine_def)
  then have k: "length body \<le> length (takeWhile (\<lambda>c. \<not> isLineTerminator c) ?t)"
    by simp
  have j: "1 \<le> length body"
    using assms(1) by (cases body) auto
  have "matchLiteral (utf16 ''*/;'') (drop (length body) ?t) \<noteq> None"
    by (simp add: matchLiteral_append)
  from matchDotPlus_complete [OF j k this] show ?thesis
    by (simp add: matchAt_def matchLiteral_append)
qed

lemma removeSqlStrMetaSync_length: "length (removeSqlStrMetaSync s) \<le> length s"
proof (induction s rule: removeSqlStrMetaSync.induct)
  case 1
  then show ?case by simp
next
  case (2 c cs)
  show ?case
  proof (cases "matchAt (c # cs)")
    case None
    with "2.IH"(1) show ?thesis by simp
  next
    case (Some rest)
    with "2.IH"(2) matchAt_shorter [OF Some] show ?thesis by simp
  qed
qed

lemma removeSqlStrMetaSync_shrinks:
  "matchAt t \<noteq> None \<Longrightarrow> length (removeSqlStrMetaSync (pre @ t)) < length (pre @ t)"
proof (induction pre)
  case Nil
  then obtain rest where r: "matchAt t = Some rest" by auto
  then obtain c cs where t: "t = c # cs"
    by (cases t) (auto simp: matchAt_def utf16_def)
  from r t matchAt_shorter [OF r] removeSqlStrMetaSync_length [of rest] show ?case
    by simp
next
  case (Cons c pre)
  show ?case
  proof (cases "matchAt (c # pre @ t)")
    case None
    with Cons show ?thesis by simp
  next
    case (Some rest)
    with matchAt_shorter [OF Some] removeSqlStrMetaSync_length [of rest] show ?thesis by simp
  qed
qed

lemma removeSqlStrMetaSync_fixed_iff: "removeSqlStrMetaSync s = s \<longleftrightarrow> \<not> containsDirective s"
proof
  assume fixed: "removeSqlStrMetaSync s = s"
  show "\<not> containsDirective s"
  proof
    assume "containsDirective s"
    then obtain pre body post where s: "s = pre @ utf16 ''/*!'' @ body @ utf16 ''*/;'' @ post"
      and b: "body \<noteq> []" "singleLine body"
      unfolding containsDirective_def by blast
    from removeSqlStrMetaSync_shrinks [OF matchAt_complete [OF b], of pre post] fixed s
    show False by simp
  qed
next
  assume "\<not> containsDirective s"
  then show "removeSqlStrMetaSync s = s"
    by (rule removeSqlStrMetaSync_id)
qed

lemma no_slash_no_directive: "0x2F \<notin> set s \<Longrightarrow> \<not> containsDirective s"
  by (auto simp: containsDirective_def utf16_def)

lemma matchLiteral_terminator_None:
  "r = [] \<or> isLineTerminator (hd r) \<Longrightarrow> matchLiteral (utf16 ''*/;'') r = None"
  by (cases r) (auto simp: utf16_def isLineTerminator_def)

text \<open>
  When \<open>*/;\<close> ends a line that starts with \<open>/*!\<close>, the match runs to the end of that line
  and over the line breaks behind it, whatever the line holds in between.
\<close>

lemma matchAt_line:
  assumes u: "u \<noteq> []" and free: "singleLine u"
    and r: "r = [] \<or> isLineTerminator (hd r)"
  shows "matchAt (utf16 ''/*!'' @ u @ utf16 ''*/;'' @ r) = Some (matchNewlines r)"
proof -
  let ?t = "u @ utf16 ''*/;'' @ r"
  from u obtain n where n: "length u = Suc n"
    by (cases u) auto
  have tw_r: "takeWhile (\<lambda>c. \<not> isLineTerminator c) r = []"
    using r by (cases r) auto
  have "takeWhile (\<lambda>c. \<not> isLineTerminator c) (utf16 ''*/;'' @ r) = utf16 ''*/;''"
    using tw_r by (simp add: utf16_def isLineTerminator_def)
  then have "takeWhile (\<lambda>c. \<not> isLineTerminator c) ?t = u @ utf16 ''*/;''"
    using free by (simp add: singleLine_def)
  then have len: "length (takeWhile (\<lambda>c. \<not> isLineTerminator c) ?t) = Suc (Suc (Suc (Suc n)))"
    using n by (simp add: utf16_def)
  have d0: "drop (Suc n) ?t = utf16 ''*/;'' @ r"
    using n by simp
  have d1: "drop (Suc (Suc n)) ?t = utf16 ''/;'' @ r"
    using n by (simp add: utf16_def)
  have d2: "drop (Suc (Suc (Suc n))) ?t = utf16 '';'' @ r"
    using n by (simp add: utf16_def)
  have d3: "drop (Suc (Suc (Suc (Suc n)))) ?t = r"
    using n by (simp add: utf16_def)
  have m3: "matchLiteral (utf16 ''*/;'') r = None"
    using r by (rule matchLiteral_terminator_None)
  have m2: "matchLiteral (utf16 ''*/;'') (utf16 '';'' @ r) = None"
    by (simp add: utf16_def)
  have m1: "matchLiteral (utf16 ''*/;'') (utf16 ''/;'' @ r) = None"
    by (simp add: utf16_def)
  have m0: "matchLiteral (utf16 ''*/;'') (utf16 ''*/;'' @ r) = Some r"
    by (rule matchLiteral_append)
  have "matchDotPlus (Suc (Suc (Suc (Suc n)))) ?t = Some (matchNewlines r)"
    by (simp only: matchDotPlus.simps d0 d1 d2 d3 m0 m1 m2 m3 option.case)
  then show ?thesis
    by (simp only: matchAt_def matchLiteral_append option.case len)
qed

lemma matchAt_first_not_slash: "c \<noteq> 0x2F \<Longrightarrow> matchAt (c # cs) = None"
  by (simp add: matchAt_def utf16_def)

lemma directivesOnly_blank_tail:
  assumes "directivesOnly (c # cs)" and "c = LF \<or> c = CR"
  shows "directivesOnly cs"
  using assms
  by (cases rule: directivesOnly.cases) (auto simp: utf16_def LF_def CR_def)

lemma directivesOnly_shape:
  "directivesOnly s \<Longrightarrow>
     s = [] \<or> (\<exists>c cs. s = c # cs \<and> (c = LF \<or> c = CR) \<and> directivesOnly cs)
     \<or> (\<exists>u r. s = utf16 ''/*!'' @ u @ utf16 ''*/;'' @ r \<and> u \<noteq> [] \<and> singleLine u
            \<and> (r = [] \<or> isLineTerminator (hd r)) \<and> directivesOnly r)"
proof (induction rule: directivesOnly.induct)
  case empty
  then show ?case by simp
next
  case (blank c s)
  then show ?case by blast
next
  case (directive body s)
  let ?goal = "\<exists>u r. utf16 ''/*!'' @ body @ utf16 ''*/;'' @ s = utf16 ''/*!'' @ u @ utf16 ''*/;'' @ r
      \<and> u \<noteq> [] \<and> singleLine u \<and> (r = [] \<or> isLineTerminator (hd r)) \<and> directivesOnly r"
  from directive.IH consider
    (nil) "s = []"
    | (nl) c cs where "s = c # cs" "c = LF \<or> c = CR" "directivesOnly cs"
    | (dir) u r where "s = utf16 ''/*!'' @ u @ utf16 ''*/;'' @ r" "u \<noteq> []"
        "singleLine u" "r = [] \<or> isLineTerminator (hd r)" "directivesOnly r"
    by blast
  then have ?goal
  proof cases
    case nil
    have "utf16 ''/*!'' @ body @ utf16 ''*/;'' @ s = utf16 ''/*!'' @ body @ utf16 ''*/;'' @ []
        \<and> body \<noteq> [] \<and> singleLine body
        \<and> (([]::jsstring) = [] \<or> isLineTerminator (hd [])) \<and> directivesOnly []"
      using nil directive.hyps by (simp add: directivesOnly.empty)
    then show ?thesis by blast
  next
    case nl
    have "isLineTerminator (hd s)"
      using nl by (auto simp: isLineTerminator_def LF_def CR_def)
    then have "utf16 ''/*!'' @ body @ utf16 ''*/;'' @ s = utf16 ''/*!'' @ body @ utf16 ''*/;'' @ s
        \<and> body \<noteq> [] \<and> singleLine body
        \<and> (s = [] \<or> isLineTerminator (hd s)) \<and> directivesOnly s"
      using directive.hyps by simp
    then show ?thesis by blast
  next
    case dir
    let ?u = "body @ utf16 ''*/;'' @ utf16 ''/*!'' @ u"
    have "singleLine ?u"
      using directive.hyps(2) dir(3) by (auto simp: singleLine_def utf16_def isLineTerminator_def)
    then have "utf16 ''/*!'' @ body @ utf16 ''*/;'' @ s = utf16 ''/*!'' @ ?u @ utf16 ''*/;'' @ r
        \<and> ?u \<noteq> [] \<and> singleLine ?u
        \<and> (r = [] \<or> isLineTerminator (hd r)) \<and> directivesOnly r"
      using dir directive.hyps(1) by simp
    then show ?thesis by blast
  qed
  then show ?case by blast
qed

lemma directivesOnly_matchNewlines: "directivesOnly r \<Longrightarrow> directivesOnly (matchNewlines r)"
proof (induction r rule: matchNewlines.induct)
  case 1
  then show ?case by simp
next
  case (2 c)
  then show ?case by (simp add: directivesOnly.empty)
next
  case (3 c d r)
  show ?case
  proof (cases "c = 0x000D \<and> d = 0x000A")
    case True
    then have "directivesOnly (d # r)"
      using "3.prems" directivesOnly_blank_tail [of c "d # r"] by (simp add: CR_def)
    then have "directivesOnly r"
      using True directivesOnly_blank_tail [of d r] by (simp add: LF_def)
    with "3.IH"(1) True show ?thesis by simp
  next
    case False
    show ?thesis
    proof (cases "c = 0x000A")
      case True
      then have "directivesOnly (d # r)"
        using "3.prems" directivesOnly_blank_tail [of c "d # r"] by (simp add: LF_def)
      with "3.IH"(2) False True show ?thesis by simp
    next
      case c: False
      with False "3.prems" show ?thesis by auto
    qed
  qed
qed

lemma directivesOnly_removed:
  "directivesOnly s \<Longrightarrow> set (removeSqlStrMetaSync s) \<subseteq> {LF, CR}"
proof (induction s rule: removeSqlStrMetaSync.induct)
  case 1
  then show ?case by simp
next
  case (2 c cs)
  from directivesOnly_shape [OF "2.prems"] consider
    (nl) "c = LF \<or> c = CR" "directivesOnly cs"
    | (dir) u r where "c # cs = utf16 ''/*!'' @ u @ utf16 ''*/;'' @ r" "u \<noteq> []"
        "singleLine u" "r = [] \<or> isLineTerminator (hd r)" "directivesOnly r"
    by blast
  then show ?case
  proof cases
    case nl
    then have n: "matchAt (c # cs) = None"
      by (intro matchAt_first_not_slash) (auto simp: LF_def CR_def)
    from "2.IH"(1) [OF n nl(2)] n nl(1) show ?thesis by auto
  next
    case dir
    have m: "matchAt (c # cs) = Some (matchNewlines r)"
      unfolding dir(1) using dir(2,3,4) by (rule matchAt_line)
    from "2.IH"(2) [OF m directivesOnly_matchNewlines [OF dir(5)]] m show ?thesis by simp
  qed
qed

text \<open>
  Not every string made only of version-gated comment blocks terminated by \<open>*/;\<close> is
  emptied. A block that runs over two lines is such a string, and the sanitizer returns
  it unchanged: \<open>.\<close> does not cross a line terminator.
\<close>

theorem multiline_directive_counterexample:
  "versionGatedBlock (utf16 ''/*!50003 TRIGGER g BEFORE INSERT ON t FOR EACH ROW BEGIN'' @ [LF] @ utf16 ''END */;'')
   \<and> removeSqlStrMetaSync (utf16 ''/*!50003 TRIGGER g BEFORE INSERT ON t FOR EACH ROW BEGIN'' @ [LF] @ utf16 ''END */;'')
       = utf16 ''/*!50003 TRIGGER g BEFORE INSERT ON t FOR EACH ROW BEGIN'' @ [LF] @ utf16 ''END */;''
   \<and> \<not> set (removeSqlStrMetaSync
              (utf16 ''/*!50003 TRIGGER g BEFORE INSERT ON t FOR EACH ROW BEGIN'' @ [LF] @ utf16 ''END */;''))
          \<subseteq> {LF, CR}"
  by (simp add: versionGatedBlock_def matchAt_def utf16_def isLineTerminator_def LF_def CR_def)

text \<open>
  C5, for the directives the pattern describes: \<open>/*!\<close>, at least one code unit and
  \<open>*/;\<close>, all on one line. The sanitizer returns every string that contains no such
  directive unchanged, and of every string made only of such directives and line breaks
  it leaves line breaks only (the empty string, up to newlines).
\<close>

theorem sanitizer_identity_and_annihilation:
  "(\<not> containsDirective s \<longrightarrow> removeSqlStrMetaSync s = s)
   \<and> (directivesOnly d \<longrightarrow> set (removeSqlStrMetaSync d) \<subseteq> {LF, CR})"
  using removeSqlStrMetaSync_id [of s] directivesOnly_removed [of d] by blast

theorem sanitizer_identity_and_annihilation_witness:
  "\<not> containsDirective (utf16 ''CREATE TABLE t (id INT);'')
   \<and> removeSqlStrMetaSync (utf16 ''CREATE TABLE t (id INT);'') = utf16 ''CREATE TABLE t (id INT);''
   \<and> directivesOnly (utf16 ''/*!'' @ utf16 ''40101 SET a=1 '' @ utf16 ''*/;'' @ CR # LF #
        utf16 ''/*!'' @ utf16 ''40101 SET b=2 '' @ utf16 ''*/;'' @ LF # [])
   \<and> removeSqlStrMetaSync (utf16 ''/*!'' @ utf16 ''40101 SET a=1 '' @ utf16 ''*/;'' @ CR # LF #
        utf16 ''/*!'' @ utf16 ''40101 SET b=2 '' @ utf16 ''*/;'' @ LF # []) = []"
proof -
  have a: "\<not> containsDirective (utf16 ''CREATE TABLE t (id INT);'')"
    by (rule no_slash_no_directive) (simp add: utf16_def)
  have l: "singleLine (utf16 ''40101 SET a=1 '')" "singleLine (utf16 ''40101 SET b=2 '')"
    by (simp_all add: singleLine_def utf16_def isLineTerminator_def)
  have n: "utf16 ''40101 SET a=1 '' \<noteq> []" "utf16 ''40101 SET b=2 '' \<noteq> []"
    by (simp_all add: utf16_def)
  have d: "directivesOnly (utf16 ''/*!'' @ utf16 ''40101 SET a=1 '' @ utf16 ''*/;'' @ CR # LF #
        utf16 ''/*!'' @ utf16 ''40101 SET b=2 '' @ utf16 ''*/;'' @ LF # [])"
    by (intro directivesOnly.directive directivesOnly.blank directivesOnly.empty l n) simp_all
  have e: "removeSqlStrMetaSync (utf16 ''/*!'' @ utf16 ''40101 SET a=1 '' @ utf16 ''*/;'' @ CR # LF #
        utf16 ''/*!'' @ utf16 ''40101 SET b=2 '' @ utf16 ''*/;'' @ LF # []) = []"
    by (simp add: matchAt_def utf16_def isLineTerminator_def LF_def CR_def)
  from a d e sanitizer_identity_and_annihilation
    [of "utf16 ''CREATE TABLE t (id INT);''"
      "utf16 ''/*!'' @ utf16 ''40101 SET a=1 '' @ utf16 ''*/;'' @ CR # LF #
        utf16 ''/*!'' @ utf16 ''40101 SET b=2 '' @ utf16 ''*/;'' @ LF # []"]
  show ?thesis by blast
qed

text \<open>
  C10. The sanitizer removes text that belongs to no directive: when a line starts with
  \<open>/*!\<close> and holds \<open>*/;\<close> twice, everything from \<open>/*!\<close> to the last \<open>*/;\<close> is deleted, the
  text between the two terminators included, whatever it is.
\<close>

theorem greedy_match_removes_text_between_terminators:
  "a \<noteq> [] \<Longrightarrow> singleLine a \<Longrightarrow> singleLine mid \<Longrightarrow>
     removeSqlStrMetaSync (utf16 ''/*!'' @ a @ utf16 ''*/;'' @ mid @ utf16 ''*/;'') = []"
proof -
  assume a: "a \<noteq> []" and la: "singleLine a" and lm: "singleLine mid"
  let ?u = "a @ utf16 ''*/;'' @ mid"
  have u: "?u \<noteq> []" "singleLine ?u"
    using a la lm by (auto simp: singleLine_def utf16_def isLineTerminator_def)
  have "matchAt (utf16 ''/*!'' @ ?u @ utf16 ''*/;'' @ []) = Some (matchNewlines [])"
    using u by (intro matchAt_line) simp_all
  then have m: "matchAt (utf16 ''/*!'' @ a @ utf16 ''*/;'' @ mid @ utf16 ''*/;'') = Some []"
    by simp
  have "utf16 ''/*!'' @ a @ utf16 ''*/;'' @ mid @ utf16 ''*/;''
      = 0x2F # (utf16 ''*!'' @ a @ utf16 ''*/;'' @ mid @ utf16 ''*/;'')"
    by (simp add: utf16_def)
  with m show ?thesis
    by (metis removeSqlStrMetaSync.simps option.simps(5))
qed

theorem greedy_match_removes_text_between_terminators_witness:
  "singleLine (utf16 ''40101 SET a=1 '') \<and> singleLine (utf16 '' DROP TABLE x; /*!40101 SET b=2 '')
   \<and> removeSqlStrMetaSync (utf16 ''/*!'' @ utf16 ''40101 SET a=1 '' @ utf16 ''*/;''
        @ utf16 '' DROP TABLE x; /*!40101 SET b=2 '' @ utf16 ''*/;'') = []"
proof -
  have l: "singleLine (utf16 ''40101 SET a=1 '')"
    "singleLine (utf16 '' DROP TABLE x; /*!40101 SET b=2 '')"
    by (simp_all add: singleLine_def utf16_def isLineTerminator_def)
  have n: "utf16 ''40101 SET a=1 '' \<noteq> []"
    by (simp add: utf16_def)
  from greedy_match_removes_text_between_terminators [OF n l] l show ?thesis
    by simp
qed

section \<open>Properties of the push run\<close>

lemma prepend_simp [simp]: "prepend pre (ev, r) = (pre @ ev, r)"
  by (simp add: prepend_def)

lemma fst_prepend: "fst (prepend pre m) = pre @ fst m" and snd_prepend: "snd (prepend pre m) = snd m"
  by (cases m; simp)+

lemma sourceFiles_trace:
  "(\<forall>file\<in>set files. isSqlFileSync w (sqlFileDirFullPath cfg @ file)
       \<longrightarrow> readFileSync w (sqlFileDirFullPath cfg @ file) \<noteq> None)
   \<Longrightarrow> sourceFiles cfg w files n = (concat (map (loadEvents cfg w) files), Some (n + length files))"
proof (induction files arbitrary: n)
  case Nil
  then show ?case by simp
next
  case (Cons f fs)
  then have ih: "sourceFiles cfg w fs (Suc n)
      = (concat (map (loadEvents cfg w) fs), Some (Suc n + length fs))"
    by simp
  show ?case
  proof (cases "isSqlFileSync w (sqlFileDirFullPath cfg @ f)")
    case False
    then have "loadEvents cfg w f = []"
      by (simp add: loadEvents_def)
    with False ih show ?thesis by simp
  next
    case True
    with Cons.prems obtain c where c: "readFileSync w (sqlFileDirFullPath cfg @ f) = Some c"
      by auto
    with True have "loadEvents cfg w f =
        [ReadFile (sqlFileDirFullPath cfg @ f), TmpQuery (removeSqlStrMetaSync c)]
        @ (if sourceOk w (sqlFileDirFullPath cfg @ f) then []
           else [LogError, LogWarn (utf16 ''Not sourced.'')])"
      by (simp add: loadEvents_def contents_def)
    with True c ih show ?thesis
      by simp
  qed
qed

lemma assemble_script:
  "(\<forall>t\<in>set ts. t \<in> set exclV \<longrightarrow> readFileSync w (tableFile cfg t) \<noteq> None)
   \<Longrightarrow> exclV = onlyInFiles A B \<Longrightarrow> exclL = onlyLive A B
   \<Longrightarrow> assemble cfg w exclV exclL ts n script
       = (concat (map (fragmentEvents cfg A B) ts),
          Some (n + length ts, script @ concat (map (fragment cfg w A B) ts)))"
proof (induction ts arbitrary: n script)
  case Nil
  then show ?case by simp
next
  case (Cons t ts)
  have ih: "\<And>n script. assemble cfg w exclV exclL ts n script
      = (concat (map (fragmentEvents cfg A B) ts),
          Some (n + length ts, script @ concat (map (fragment cfg w A B) ts)))"
    using Cons by simp
  have v: "t \<in> set exclV \<longleftrightarrow> t \<in> set A \<and> t \<notin> set B"
    using Cons.prems(2) by (auto simp: onlyInFiles_set)
  have l: "t \<in> set exclL \<longleftrightarrow> t \<in> set B \<and> t \<notin> set A"
    using Cons.prems(3) by (auto simp: onlyLive_set)
  consider (files) "t \<in> set exclV" | (live) "t \<notin> set exclV" "t \<in> set exclL"
    | (both) "t \<notin> set exclV" "t \<notin> set exclL"
    by blast
  then show ?case
  proof cases
    case files
    with Cons.prems(1) obtain c where c: "readFileSync w (tableFile cfg t) = Some c"
      by auto
    from files v have f: "fragment cfg w A B t = removeSqlStrMetaSync c @ [LF]"
      "fragmentEvents cfg A B t = [ReadFile (tableFile cfg t)]"
      by (simp_all add: fragment_def fragmentEvents_def contents_def c)
    from files c show ?thesis
      by (simp add: ih f tableFile_def [symmetric])
  next
    case live
    with v l have f: "fragment cfg w A B t = utf16 ''DROP TABLE IF EXISTS '' @ t @ [LF]"
      "fragmentEvents cfg A B t = []"
      by (simp_all add: fragment_def fragmentEvents_def)
    from live show ?thesis
      by (simp add: ih f)
  next
    case both
    with v l have f: "fragment cfg w A B t = mysqldiffStdout w (cmdToRun cfg t) @ [LF]"
      "fragmentEvents cfg A B t = [Exec (cmdToRun cfg t)]"
      by (auto simp: fragment_def fragmentEvents_def)
    from both show ?thesis
      by (simp add: ih f)
  qed
qed


lemma endsWith_iff: "endsWith s suffix \<longleftrightarrow> (\<exists>pre. s = pre @ suffix)"
proof
  assume "endsWith s suffix"
  then have "s = take (length s - length suffix) s @ suffix"
    by (metis append_take_drop_id endsWith_def)
  then show "\<exists>pre. s = pre @ suffix" ..
next
  assume "\<exists>pre. s = pre @ suffix"
  then show "endsWith s suffix"
    by (auto simp: endsWith_def)
qed

lemma sqlFileDirFullPath_slash: "\<exists>d. sqlFileDirFullPath cfg = d @ utf16 ''/''"
  by (auto simp: sqlFileDirFullPath_def endsWith_iff)

lemma sql_suffix_of_entry:
  assumes "endsWith (sqlFileDirFullPath cfg @ file) (utf16 ''.sql'')"
  shows "endsWith file (utf16 ''.sql'')"
proof -
  obtain d where d: "sqlFileDirFullPath cfg = d @ utf16 ''/''"
    using sqlFileDirFullPath_slash by blast
  from assms obtain pre where "(d @ utf16 ''/'') @ file = pre @ utf16 ''.sql''"
    unfolding endsWith_iff d by auto
  then consider (a) us where "d @ utf16 ''/'' = pre @ us" "us @ file = utf16 ''.sql''"
    | (b) us where "file = us @ utf16 ''.sql''"
    unfolding append_eq_append_conv2 by blast
  then show ?thesis
  proof cases
    case a
    show ?thesis
    proof (cases "us = []")
      case True
      with a show ?thesis by (simp add: endsWith_iff)
    next
      case False
      then have "last us = last (d @ utf16 ''/'')"
        using a(1) by (metis last_appendR)
      also have "\<dots> = 0x2F"
        by (simp add: utf16_def)
      finally have "0x2F \<in> set us"
        using False last_in_set [of us] by simp
      then have "0x2F \<in> set (utf16 ''.sql'')"
        using a(2) by (metis Un_iff set_append)
      then show ?thesis
        by (simp add: utf16_def)
    qed
  next
    case b
    then show ?thesis by (auto simp: endsWith_iff)
  qed
qed

lemma tableFile_basename:
  assumes "isSqlFileSync w (sqlFileDirFullPath cfg @ file)"
  shows "tableFile cfg (basename file (utf16 ''.sql'')) = sqlFileDirFullPath cfg @ file"
proof -
  from assms have "endsWith (sqlFileDirFullPath cfg @ file) (utf16 ''.sql'')"
    by (simp add: isSqlFileSync_def sqlFilenameRegexp_def split: if_splits)
  then have e: "endsWith file (utf16 ''.sql'')"
    by (rule sql_suffix_of_entry)
  then have "take (length file - length (utf16 ''.sql'')) file @ utf16 ''.sql'' = file"
    by (metis append_take_drop_id endsWith_def)
  moreover have "utf16 ''.sql'' \<noteq> []"
    by (simp add: utf16_def)
  ultimately show ?thesis
    using e by (simp add: tableFile_def basename_def)
qed

lemma tables_readable:
  assumes "\<forall>file\<in>set files. isSqlFileSync w (sqlFileDirFullPath cfg @ file)
       \<longrightarrow> readFileSync w (sqlFileDirFullPath cfg @ file) \<noteq> None"
    and "t \<in> set (versionControlledTableNameList cfg w files)"
  shows "readFileSync w (tableFile cfg t) \<noteq> None"
proof -
  from assms(2) obtain e where f: "e \<in> set files"
    "isSqlFileSync w (sqlFileDirFullPath cfg @ e)" "t = basename e (utf16 ''.sql'')"
    by (auto simp: versionControlledTableNameList_def)
  with assms(1) tableFile_basename [OF f(2)] show ?thesis
    by simp
qed

lemma thenP_Some [simp]: "thenP (ev, Some a) f = prepend ev (f a)"
  by (cases "f a") (simp add: thenP_def)

lemma thenP_None [simp]: "thenP (ev, None) f = (ev, None)"
  by (simp add: thenP_def)

lemma assemblePipeline_setup:
  assumes "dropDbOk w" "createDbOk w" "useDbOk w"
  shows "assemblePipeline cfg w
     = prepend (setupEvents cfg w)
         (thenP (loadStage cfg w (liveNames w) (readdir w)) (assembleStage cfg w))"
proof (cases "showTables w")
  case None
  with assms show ?thesis
    by (cases "thenP (loadStage cfg w [] (readdir w)) (assembleStage cfg w)")
      (simp add: assemblePipeline_def showTablesStage_def dropDbStage_def createDbStage_def
        useDbStage_def readdirStage_def setupEvents_def liveNames_def)
next
  case (Some results)
  with assms show ?thesis
    by (cases "thenP (loadStage cfg w results (readdir w)) (assembleStage cfg w)")
      (simp add: assemblePipeline_def showTablesStage_def dropDbStage_def createDbStage_def
        useDbStage_def readdirStage_def setupEvents_def liveNames_def)
qed

lemma assemblePipeline_trace:
  assumes ok: "dropDbOk w" "createDbOk w" "useDbOk w"
    and files: "readdir w = Some files" "files \<noteq> []"
    and readable: "\<forall>file\<in>set files. isSqlFileSync w (sqlFileDirFullPath cfg @ file)
       \<longrightarrow> readFileSync w (sqlFileDirFullPath cfg @ file) \<noteq> None"
  shows "assemblePipeline cfg w
     = (setupEvents cfg w @ concat (map (loadEvents cfg w) files)
          @ concat (map (fragmentEvents cfg (versionControlledTableNameList cfg w files) (liveNames w))
              (merged (versionControlledTableNameList cfg w files) (liveNames w))),
        Some (concat (map (fragment cfg w (versionControlledTableNameList cfg w files) (liveNames w))
              (merged (versionControlledTableNameList cfg w files) (liveNames w)))))"
proof -
  let ?V = "versionControlledTableNameList cfg w files"
  let ?L = "liveNames w"
  have src: "sourceFiles cfg w files 0 = (concat (map (loadEvents cfg w) files), Some (0 + length files))"
    using readable by (rule sourceFiles_trace)
  have "\<forall>t\<in>set (merged ?V ?L). t \<in> set (onlyInFiles ?V ?L) \<longrightarrow> readFileSync w (tableFile cfg t) \<noteq> None"
    using tables_readable [OF readable] by (auto simp: onlyInFiles_set)
  then have asm: "assemble cfg w (onlyInFiles ?V ?L) (onlyLive ?V ?L) (merged ?V ?L) 0 []
      = (concat (map (fragmentEvents cfg ?V ?L) (merged ?V ?L)),
         Some (0 + length (merged ?V ?L), [] @ concat (map (fragment cfg w ?V ?L) (merged ?V ?L))))"
    by (intro assemble_script) simp_all
  have "thenP (loadStage cfg w ?L (readdir w)) (assembleStage cfg w)
      = (concat (map (loadEvents cfg w) files) @ concat (map (fragmentEvents cfg ?V ?L) (merged ?V ?L)),
         Some (concat (map (fragment cfg w ?V ?L) (merged ?V ?L))))"
    using files by (simp add: loadStage_def assembleStage_def src asm Let_def)
  then show ?thesis
    unfolding assemblePipeline_setup [OF ok] by simp
qed

text \<open>The definitions a concrete run is evaluated with.\<close>

lemmas example_defs = exampleConfig_def exampleWorld_def utf16_def LF_def CR_def
  sqlFileDirFullPath_def endsWith_def isSqlFileSync_def sqlFilenameRegexp_def basename_def
  versionControlledTableNameList_def cmdToRun_def mysqlServerTmpDbname_def
  dropDbIfExistsStmt_def createDbStmt_def useTmpDbStmt_def
  merged_def onlyInFiles_def onlyLive_def mergeTwoListsSync_def
  getExclusiveImageRemoteNameListInFirstOperandSync_def set_add_def set_has_def
  matchAt_def isLineTerminator_def

lemmas stage_defs = runPush_def assemblePipeline_def showTablesStage_def dropDbStage_def
  createDbStage_def useDbStage_def readdirStage_def loadStage_def assembleStage_def
  applyStage_def finallyStage_def Let_def

text \<open>
  C2. For the file-defined names \<open>A\<close> and the live names \<open>B\<close>, the assembled push script is
  the concatenation, in the order of the merged list, of one fragment per table: the
  sanitized contents of the table's file when the name is only in files, the statement
  \<open>DROP TABLE IF EXISTS <name>\<close> when it is only live, the standard output of the external
  diff (empty or not) when it is in both; a newline follows every fragment. The files of
  the tables only in files are taken to be readable. In the example, with the files
  \<open>a.sql\<close> and \<open>b.sql\<close> and the live tables \<open>b\<close> and \<open>c\<close>, the script is a CREATE fragment
  for \<open>a\<close>, the diff for \<open>b\<close> and a DROP for \<open>c\<close>, in that order.
\<close>

theorem push_script_is_concatenation_of_fragments:
  assumes "\<forall>t\<in>set (onlyInFiles A B). readFileSync w (tableFile cfg t) \<noteq> None"
  shows "snd (assembleStage cfg w (merged A B, onlyInFiles A B, onlyLive A B))
     = Some (concat (map (fragment cfg w A B) (merged A B)))"
proof -
  have "\<forall>t\<in>set (merged A B). t \<in> set (onlyInFiles A B) \<longrightarrow> readFileSync w (tableFile cfg t) \<noteq> None"
    using assms by blast
  then have "assemble cfg w (onlyInFiles A B) (onlyLive A B) (merged A B) 0 []
      = (concat (map (fragmentEvents cfg A B) (merged A B)),
         Some (0 + length (merged A B), [] @ concat (map (fragment cfg w A B) (merged A B))))"
    by (intro assemble_script) simp_all
  then show ?thesis
    by (simp add: assembleStage_def)
qed

theorem push_script_is_concatenation_of_fragments_witness:
  "versionControlledTableNameList exampleConfig exampleWorld [utf16 ''a.sql'', utf16 ''b.sql'']
     = [utf16 ''a'', utf16 ''b'']
   \<and> merged [utf16 ''a'', utf16 ''b''] [utf16 ''b'', utf16 ''c'']
       = [utf16 ''a'', utf16 ''b'', utf16 ''c'']
   \<and> snd (assembleStage exampleConfig exampleWorld
        (merged [utf16 ''a'', utf16 ''b''] [utf16 ''b'', utf16 ''c''],
         onlyInFiles [utf16 ''a'', utf16 ''b''] [utf16 ''b'', utf16 ''c''],
         onlyLive [utf16 ''a'', utf16 ''b''] [utf16 ''b'', utf16 ''c'']))
       = Some (utf16 ''CREATE TABLE a (id INT);'' @ [LF] @ utf16 ''ALTER TABLE b ADD x INT;'' @ [LF]
           @ utf16 ''DROP TABLE IF EXISTS c'' @ [LF])"
  using push_script_is_concatenation_of_fragments
    [of "[utf16 ''a'', utf16 ''b'']" "[utf16 ''b'', utf16 ''c'']" exampleWorld exampleConfig]
  by (simp add: example_defs fragment_def tableFile_def contents_def)


text \<open>
  C7. When the run reaches the listing and every schema file can be read, the loader
  handles each entry by itself (\<open>loadEvents\<close>): each schema file is read and its statement
  executed, in the order of the listing; a statement that fails is logged and followed by
  the warning \<open>Not sourced.\<close>, and changes nothing for the files behind it. The loader ends
  with the count of all entries, and the run goes on to assemble the script.
\<close>

theorem per_file_load_failure_is_recoverable:
  assumes "dropDbOk w" "createDbOk w" "useDbOk w"
    and "readdir w = Some files" "files \<noteq> []"
    and "\<forall>file\<in>set files. isSqlFileSync w (sqlFileDirFullPath cfg @ file)
       \<longrightarrow> readFileSync w (sqlFileDirFullPath cfg @ file) \<noteq> None"
  shows "sourceFiles cfg w files 0 = (concat (map (loadEvents cfg w) files), Some (length files))
    \<and> assemblePipeline cfg w
     = (setupEvents cfg w @ concat (map (loadEvents cfg w) files)
          @ concat (map (fragmentEvents cfg (versionControlledTableNameList cfg w files) (liveNames w))
              (merged (versionControlledTableNameList cfg w files) (liveNames w))),
        Some (concat (map (fragment cfg w (versionControlledTableNameList cfg w files) (liveNames w))
              (merged (versionControlledTableNameList cfg w files) (liveNames w)))))"
  using sourceFiles_trace [OF assms(6), of 0] assemblePipeline_trace [OF assms]
  by simp

theorem per_file_load_failure_is_recoverable_witness:
  "\<not> sourceOk (exampleWorld\<lparr>sourceOk := \<lambda>path. path \<noteq> utf16 ''/repo/a.sql''\<rparr>) (utf16 ''/repo/a.sql'')
   \<and> assemblePipeline exampleConfig (exampleWorld\<lparr>sourceOk := \<lambda>path. path \<noteq> utf16 ''/repo/a.sql''\<rparr>)
     = ([LiveQuery (utf16 ''SHOW TABLES''),
         TmpQuery (utf16 ''DROP DATABASE IF EXISTS tmp''),
         TmpQuery (utf16 ''CREATE DATABASE tmp''),
         TmpQuery (utf16 ''USE tmp''),
         ReadDir (utf16 ''/repo/''),
         ReadFile (utf16 ''/repo/a.sql''),
         TmpQuery (utf16 ''CREATE TABLE a (id INT);''),
         LogError,
         LogWarn (utf16 ''Not sourced.''),
         ReadFile (utf16 ''/repo/b.sql''),
         TmpQuery (utf16 ''CREATE TABLE b (id INT);''),
         ReadFile (utf16 ''/repo/a.sql''),
         Exec (utf16 ''mysqldiff --server1=root@localhost:3306 --compact --difftype=sql shop.b:tmp.b'')],
        Some (utf16 ''CREATE TABLE a (id INT);'' @ [LF] @ utf16 ''ALTER TABLE b ADD x INT;'' @ [LF]
           @ utf16 ''DROP TABLE IF EXISTS c'' @ [LF]))"
  using per_file_load_failure_is_recoverable
    [of "exampleWorld\<lparr>sourceOk := \<lambda>path. path \<noteq> utf16 ''/repo/a.sql''\<rparr>"
      "[utf16 ''a.sql'', utf16 ''b.sql'']" exampleConfig]
  by (simp add: example_defs fragment_def fragmentEvents_def tableFile_def contents_def
      loadEvents_def setupEvents_def liveNames_def showTablesStage_def)

text \<open>No stage before the applier sends anything but \<open>SHOW TABLES\<close> on the live connection.\<close>

lemma liveQueries_append: "liveQueries (xs @ ys) = liveQueries xs @ liveQueries ys"
  by (induction xs rule: liveQueries.induct) auto

lemma fst_thenP:
  "fst (thenP m f) = fst m @ (case snd m of None \<Rightarrow> [] | Some a \<Rightarrow> fst (f a))"
  by (cases m; cases "snd m") (auto simp: prepend_def split: prod.splits)

lemma liveQueries_thenP:
  "(\<And>a. liveQueries (fst (f a)) = []) \<Longrightarrow> liveQueries (fst (thenP m f)) = liveQueries (fst m)"
  by (simp add: fst_thenP liveQueries_append split: option.splits)

lemma liveQueries_sourceFiles: "liveQueries (fst (sourceFiles cfg w files n)) = []"
  by (induction files arbitrary: n)
    (auto simp: Let_def fst_prepend liveQueries_append split: option.splits)

lemma liveQueries_assemble: "liveQueries (fst (assemble cfg w exclV exclL ts n script)) = []"
  by (induction ts arbitrary: n script)
    (auto simp: Let_def fst_prepend liveQueries_append split: option.splits)

lemma liveQueries_assembleStage: "liveQueries (fst (assembleStage cfg w nameLists)) = []"
  by (cases nameLists)
    (auto simp: assembleStage_def fst_thenP liveQueries_append liveQueries_assemble
      split: option.splits prod.splits)

lemma liveQueries_loadStage: "liveQueries (fst (loadStage cfg w live files)) = []"
  by (simp add: loadStage_def Let_def liveQueries_thenP liveQueries_sourceFiles split: option.splits)

lemma liveQueries_assemblePipeline:
  "liveQueries (fst (assemblePipeline cfg w)) = [utf16 ''SHOW TABLES'']"
proof -
  have 6: "\<And>live files. liveQueries (fst (thenP (loadStage cfg w live files) (assembleStage cfg w))) = []"
    by (simp add: liveQueries_thenP liveQueries_assembleStage liveQueries_loadStage)
  have 5: "\<And>live b. liveQueries (fst (thenP (readdirStage cfg w b)
      (\<lambda>files. thenP (loadStage cfg w live files) (assembleStage cfg w)))) = []"
    by (simp add: liveQueries_thenP 6) (simp add: readdirStage_def)
  have 4: "\<And>live b. liveQueries (fst (thenP (useDbStage w b) (\<lambda>b. thenP (readdirStage cfg w b)
      (\<lambda>files. thenP (loadStage cfg w live files) (assembleStage cfg w))))) = []"
    by (simp add: liveQueries_thenP 5) (simp add: useDbStage_def)
  have 3: "\<And>live b. liveQueries (fst (thenP (createDbStage w b) (\<lambda>b. thenP (useDbStage w b)
      (\<lambda>b. thenP (readdirStage cfg w b)
      (\<lambda>files. thenP (loadStage cfg w live files) (assembleStage cfg w)))))) = []"
    by (simp add: liveQueries_thenP 4) (simp add: createDbStage_def)
  have 2: "\<And>live b. liveQueries (fst (thenP (dropDbStage w b) (\<lambda>b. thenP (createDbStage w b)
      (\<lambda>b. thenP (useDbStage w b) (\<lambda>b. thenP (readdirStage cfg w b)
      (\<lambda>files. thenP (loadStage cfg w live files) (assembleStage cfg w))))))) = []"
    by (simp add: liveQueries_thenP 3) (simp add: dropDbStage_def)
  have "liveQueries (fst (assemblePipeline cfg w)) = liveQueries (fst (showTablesStage w))"
    unfolding assemblePipeline_def
    by (rule liveQueries_thenP) (simp add: 2 split: prod.splits)
  then show ?thesis
    by (simp add: showTablesStage_def split: option.splits)
qed

text \<open>
  C8. With the dry-run flag set, the only statement the live connection receives in the
  whole run is \<open>SHOW TABLES\<close>, so the push script is never executed; and when the script
  has been assembled and an export path is configured, the run writes the script to that
  path (logging a failure of the write) and ends.
\<close>

theorem dry_run_writes_script_without_executing:
  "liveQueries (runPush cfg w True) = [utf16 ''SHOW TABLES'']
   \<and> (assemblePipeline cfg w = (ev, Some pushScript) \<longrightarrow> pushScriptExportPath cfg = Some path
        \<longrightarrow> path \<noteq> []
        \<longrightarrow> runPush cfg w True
            = ev @ [WriteFile path pushScript] @ (if writeFileOk w then [] else [LogError])
                @ finallyStage cfg w)"
proof -
  have a: "liveQueries (fst (applyStage cfg w True s)) = []" for s
    by (simp add: applyStage_def split: option.splits)
  have f: "liveQueries (finallyStage cfg w) = []"
    by (simp add: finallyStage_def)
  have "liveQueries (fst (thenP (assemblePipeline cfg w) (applyStage cfg w True)))
      = [utf16 ''SHOW TABLES'']"
    by (simp add: liveQueries_thenP a liveQueries_assemblePipeline)
  then have "liveQueries (runPush cfg w True) = [utf16 ''SHOW TABLES'']"
    by (cases "thenP (assemblePipeline cfg w) (applyStage cfg w True)")
      (auto simp: runPush_def liveQueries_append f split: option.splits)
  moreover have "assemblePipeline cfg w = (ev, Some pushScript) \<longrightarrow> pushScriptExportPath cfg = Some path
        \<longrightarrow> path \<noteq> []
        \<longrightarrow> runPush cfg w True
            = ev @ [WriteFile path pushScript] @ (if writeFileOk w then [] else [LogError])
                @ finallyStage cfg w"
    by (simp add: runPush_def applyStage_def)
  ultimately show ?thesis by blast
qed


theorem dry_run_writes_script_without_executing_witness:
  "assemblePipeline exampleConfig exampleWorld
     = ([LiveQuery (utf16 ''SHOW TABLES''),
         TmpQuery (utf16 ''DROP DATABASE IF EXISTS tmp''),
         TmpQuery (utf16 ''CREATE DATABASE tmp''),
         TmpQuery (utf16 ''USE tmp''),
         ReadDir (utf16 ''/repo/''),
         ReadFile (utf16 ''/repo/a.sql''),
         TmpQuery (utf16 ''CREATE TABLE a (id INT);''),
         ReadFile (utf16 ''/repo/b.sql''),
         TmpQuery (utf16 ''CREATE TABLE b (id INT);''),
         ReadFile (utf16 ''/repo/a.sql''),
         Exec (utf16 ''mysqldiff --server1=root@localhost:3306 --compact --difftype=sql shop.b:tmp.b'')],
        Some (utf16 ''CREATE TABLE a (id INT);'' @ [LF] @ utf16 ''ALTER TABLE b ADD x INT;'' @ [LF]
           @ utf16 ''DROP TABLE IF EXISTS c'' @ [LF]))
   \<and> pushScriptExportPath exampleConfig = Some (utf16 ''/out.sql'')
   \<and> utf16 ''/out.sql'' \<noteq> []
   \<and> liveQueries (runPush exampleConfig exampleWorld True) = [utf16 ''SHOW TABLES'']
   \<and> runPush exampleConfig exampleWorld True
     = [LiveQuery (utf16 ''SHOW TABLES''),
         TmpQuery (utf16 ''DROP DATABASE IF EXISTS tmp''),
         TmpQuery (utf16 ''CREATE DATABASE tmp''),
         TmpQuery (utf16 ''USE tmp''),
         ReadDir (utf16 ''/repo/''),
         ReadFile (utf16 ''/repo/a.sql''),
         TmpQuery (utf16 ''CREATE TABLE a (id INT);''),
         ReadFile (utf16 ''/repo/b.sql''),
         TmpQuery (utf16 ''CREATE TABLE b (id INT);''),
         ReadFile (utf16 ''/repo/a.sql''),
         Exec (utf16 ''mysqldiff --server1=root@localhost:3306 --compact --difftype=sql shop.b:tmp.b''),
         WriteFile (utf16 ''/out.sql'')
           (utf16 ''CREATE TABLE a (id INT);'' @ [LF] @ utf16 ''ALTER TABLE b ADD x INT;'' @ [LF]
             @ utf16 ''DROP TABLE IF EXISTS c'' @ [LF]),
         Exit]"
proof -
  have p: "assemblePipeline exampleConfig exampleWorld
     = ([LiveQuery (utf16 ''SHOW TABLES''),
         TmpQuery (utf16 ''DROP DATABASE IF EXISTS tmp''),
         TmpQuery (utf16 ''CREATE DATABASE tmp''),
         TmpQuery (utf16 ''USE tmp''),
         ReadDir (utf16 ''/repo/''),
         ReadFile (utf16 ''/repo/a.sql''),
         TmpQuery (utf16 ''CREATE TABLE a (id INT);''),
         ReadFile (utf16 ''/repo/b.sql''),
         TmpQuery (utf16 ''CREATE TABLE b (id INT);''),
         ReadFile (utf16 ''/repo/a.sql''),
         Exec (utf16 ''mysqldiff --server1=root@localhost:3306 --compact --difftype=sql shop.b:tmp.b'')],
        Some (utf16 ''CREATE TABLE a (id INT);'' @ [LF] @ utf16 ''ALTER TABLE b ADD x INT;'' @ [LF]
           @ utf16 ''DROP TABLE IF EXISTS c'' @ [LF]))"
    by (simp add: example_defs stage_defs)
  have e: "pushScriptExportPath exampleConfig = Some (utf16 ''/out.sql'')"
    "writeFileOk exampleWorld" "finallyStage exampleConfig exampleWorld = [Exit]"
    by (simp_all add: exampleConfig_def exampleWorld_def finallyStage_def)
  have n: "utf16 ''/out.sql'' \<noteq> []"
    by (simp add: utf16_def)
  from dry_run_writes_script_without_executing [of exampleConfig exampleWorld, THEN conjunct1]
    dry_run_writes_script_without_executing [of exampleConfig exampleWorld, THEN conjunct2,
      rule_format, OF p e(1) n] p e n
  show ?thesis by simp
qed

text \<open>
  Whatever the world, a run in which \<open>SHOW TABLES\<close> fails logs the error and goes on to the
  drop of the scratch database.
\<close>

lemma runPush_starts_with_chain:
  "\<exists>rest. runPush cfg w dryRunPush = fst (assemblePipeline cfg w) @ rest"
  by (cases "assemblePipeline cfg w"; cases "snd (assemblePipeline cfg w)")
    (auto simp: runPush_def thenP_def split: prod.splits option.splits)

lemma show_tables_failure_reaches_drop:
  "showTables w = None \<Longrightarrow>
     \<exists>rest. runPush cfg w dryRunPush
       = LiveQuery (utf16 ''SHOW TABLES'') # LogError # TmpQuery dropDbIfExistsStmt # rest"
proof -
  assume n: "showTables w = None"
  have s: "showTablesStage w = ([LiveQuery (utf16 ''SHOW TABLES''), LogError], Some (False, []))"
    using n by (simp add: showTablesStage_def)
  have t: "\<exists>rest. fst (thenP (dropDbStage w b) k) = TmpQuery dropDbIfExistsStmt # rest"
    for b and k :: "bool \<Rightarrow> event list \<times> jsstring option"
    by (simp add: fst_thenP dropDbStage_def)
  have "fst (assemblePipeline cfg w)
      = [LiveQuery (utf16 ''SHOW TABLES''), LogError]
        @ fst (thenP (dropDbStage w False) (\<lambda>trueOrFalse.
            thenP (createDbStage w trueOrFalse) (\<lambda>trueOrFalse.
              thenP (useDbStage w trueOrFalse) (\<lambda>trueOrFalse.
                thenP (readdirStage cfg w trueOrFalse) (\<lambda>files.
                  thenP (loadStage cfg w [] files) (\<lambda>nameLists.
                    assembleStage cfg w nameLists))))))"
    by (simp add: assemblePipeline_def s fst_prepend)
  with t have "\<exists>rest. fst (assemblePipeline cfg w)
      = LiveQuery (utf16 ''SHOW TABLES'') # LogError # TmpQuery dropDbIfExistsStmt # rest"
    by (metis append_Cons append_Nil)
  with runPush_starts_with_chain [of cfg w dryRunPush] show ?thesis
    by auto
qed

text \<open>
  C3. The run of the example in which \<open>SHOW TABLES\<close> fails: the error is logged, and the
  run goes on with an empty list of live tables. The scratch database is dropped, created
  and selected, both files are loaded, the script is assembled (a CREATE for every
  file-defined table), written, and sent on the live connection. The stage behind
  \<open>SHOW TABLES\<close> is the only one that does not test the \<open>false\<close> it receives.
\<close>

theorem show_tables_failure_does_not_abort:
  "showTables (exampleWorld\<lparr>showTables := None\<rparr>) = None
   \<and> runPush exampleConfig (exampleWorld\<lparr>showTables := None\<rparr>) False
     = [LiveQuery (utf16 ''SHOW TABLES''),
        LogError,
        TmpQuery (utf16 ''DROP DATABASE IF EXISTS tmp''),
        TmpQuery (utf16 ''CREATE DATABASE tmp''),
        TmpQuery (utf16 ''USE tmp''),
        ReadDir (utf16 ''/repo/''),
        ReadFile (utf16 ''/repo/a.sql''),
        TmpQuery (utf16 ''CREATE TABLE a (id INT);''),
        ReadFile (utf16 ''/repo/b.sql''),
        TmpQuery (utf16 ''CREATE TABLE b (id INT);''),
        ReadFile (utf16 ''/repo/a.sql''),
        ReadFile (utf16 ''/repo/b.sql''),
        WriteFile (utf16 ''/out.sql'')
          (utf16 ''CREATE TABLE a (id INT);'' @ [LF] @ utf16 ''CREATE TABLE b (id INT);'' @ [LF]),
        LiveQuery (utf16 ''CREATE TABLE a (id INT);'' @ [LF] @ utf16 ''CREATE TABLE b (id INT);'' @ [LF]),
        Exit]"
  by (simp add: example_defs stage_defs)

text \<open>
  Whatever the world, a run that reaches a listing which is not empty and holds no schema
  file loads nothing and assembles the script that drops every live table.
\<close>

lemma listing_without_schema_files_drops_live_tables:
  assumes ok: "dropDbOk w" "createDbOk w" "useDbOk w"
    and files: "readdir w = Some files" "files \<noteq> []"
    and none: "\<forall>entry\<in>set files. \<not> isSqlFileSync w (sqlFileDirFullPath cfg @ entry)"
  shows "assemblePipeline cfg w
     = (setupEvents cfg w,
        Some (concat (map (\<lambda>tableName. utf16 ''DROP TABLE IF EXISTS '' @ tableName @ [LF])
                (firstSeen (liveNames w)))))"
proof -
  have v: "versionControlledTableNameList cfg w files = []"
    using none by (simp add: versionControlledTableNameList_def)
  have r: "\<forall>entry\<in>set files. isSqlFileSync w (sqlFileDirFullPath cfg @ entry)
       \<longrightarrow> readFileSync w (sqlFileDirFullPath cfg @ entry) \<noteq> None"
    using none by simp
  have l: "concat (map (loadEvents cfg w) files) = []"
    using none by (simp add: loadEvents_def)
  have m: "merged [] (liveNames w) = firstSeen (liveNames w)"
    by (simp add: merged_def mergeTwoListsSync_firstSeen)
  have f: "map (fragment cfg w [] (liveNames w)) (firstSeen (liveNames w))
      = map (\<lambda>tableName. utf16 ''DROP TABLE IF EXISTS '' @ tableName @ [LF]) (firstSeen (liveNames w))"
    by (rule map_cong) (simp_all add: fragment_def firstSeen_def)
  have e: "concat (map (fragmentEvents cfg [] (liveNames w)) (firstSeen (liveNames w))) = []"
    by (simp add: fragmentEvents_def firstSeen_def)
  show ?thesis
    unfolding assemblePipeline_trace [OF ok files r] v m l f e by simp
qed

text \<open>
  C4. A listing that holds no schema file should end the run before the reconciliation.
  The run of the example in which the directory holds the single entry \<open>README.md\<close>
  shows that it does not: the guard tests the length of the listing before the entries
  are filtered, so no table is file-defined, every live table is only live, and the run
  assembles, writes and executes a script that drops them all.
\<close>

theorem listing_without_schema_file_is_pushed:
  "versionControlledTableNameList exampleConfig (exampleWorld\<lparr>readdir := Some [utf16 ''README.md'']\<rparr>)
      [utf16 ''README.md''] = []
   \<and> runPush exampleConfig (exampleWorld\<lparr>readdir := Some [utf16 ''README.md'']\<rparr>) False
     = [LiveQuery (utf16 ''SHOW TABLES''),
        TmpQuery (utf16 ''DROP DATABASE IF EXISTS tmp''),
        TmpQuery (utf16 ''CREATE DATABASE tmp''),
        TmpQuery (utf16 ''USE tmp''),
        ReadDir (utf16 ''/repo/''),
        WriteFile (utf16 ''/out.sql'')
          (utf16 ''DROP TABLE IF EXISTS b'' @ [LF] @ utf16 ''DROP TABLE IF EXISTS c'' @ [LF]),
        LiveQuery (utf16 ''DROP TABLE IF EXISTS b'' @ [LF] @ utf16 ''DROP TABLE IF EXISTS c'' @ [LF]),
        Exit]"
  by (simp add: example_defs stage_defs)

text \<open>
  What the guard does catch is the empty listing: the chain throws, no script is
  assembled, and the run performs nothing but \<open>SHOW TABLES\<close>, the three statements that
  set up the scratch database, the listing, the log of the error and the exit; when the
  three statements succeed, the error is the one thrown on the empty listing.
\<close>

theorem empty_listing_aborts_push:
  "readdir w = Some [] \<Longrightarrow>
     snd (assemblePipeline cfg w) = None
     \<and> set (runPush cfg w dryRunPush)
         \<subseteq> {LiveQuery (utf16 ''SHOW TABLES''), TmpQuery dropDbIfExistsStmt, TmpQuery createDbStmt,
             TmpQuery useTmpDbStmt, ReadDir (sqlFileDirFullPath cfg), LogError, Exit}
     \<and> (dropDbOk w \<and> createDbOk w \<and> useDbOk w
          \<longrightarrow> runPush cfg w dryRunPush = setupEvents cfg w @ [LogError] @ finallyStage cfg w)"
proof -
  assume r: "readdir w = Some []"
  have l: "loadStage cfg w live (Some []) = ([], None)" for live
    by (simp add: loadStage_def)
  have p: "snd (assemblePipeline cfg w) = None"
    "set (fst (assemblePipeline cfg w))
       \<subseteq> {LiveQuery (utf16 ''SHOW TABLES''), TmpQuery dropDbIfExistsStmt, TmpQuery createDbStmt,
             TmpQuery useTmpDbStmt, ReadDir (sqlFileDirFullPath cfg), LogError, Exit}"
    "dropDbOk w \<and> createDbOk w \<and> useDbOk w \<longrightarrow> fst (assemblePipeline cfg w) = setupEvents cfg w"
    using r
    by (auto simp: assemblePipeline_def showTablesStage_def dropDbStage_def createDbStage_def
        useDbStage_def readdirStage_def l setupEvents_def split: option.splits)
  have f: "set (finallyStage cfg w)
       \<subseteq> {LiveQuery (utf16 ''SHOW TABLES''), TmpQuery dropDbIfExistsStmt, TmpQuery createDbStmt,
             TmpQuery useTmpDbStmt, ReadDir (sqlFileDirFullPath cfg), LogError, Exit}"
    by (simp add: finallyStage_def)
  obtain ev where ev: "assemblePipeline cfg w = (ev, None)"
    using p(1) by (cases "assemblePipeline cfg w") auto
  then have run: "runPush cfg w dryRunPush = ev @ [LogError] @ finallyStage cfg w"
    by (simp add: runPush_def)
  from p ev f show ?thesis
    unfolding run by auto
qed

theorem empty_listing_aborts_push_witness:
  "readdir (exampleWorld\<lparr>readdir := Some []\<rparr>) = Some []
   \<and> snd (assemblePipeline exampleConfig (exampleWorld\<lparr>readdir := Some []\<rparr>)) = None
   \<and> runPush exampleConfig (exampleWorld\<lparr>readdir := Some []\<rparr>) False
     = [LiveQuery (utf16 ''SHOW TABLES''),
        TmpQuery (utf16 ''DROP DATABASE IF EXISTS tmp''),
        TmpQuery (utf16 ''CREATE DATABASE tmp''),
        TmpQuery (utf16 ''USE tmp''),
        ReadDir (utf16 ''/repo/''),
        LogError,
        Exit]"
proof -
  have r: "readdir (exampleWorld\<lparr>readdir := Some []\<rparr>) = Some []"
    by simp
  have ok: "dropDbOk (exampleWorld\<lparr>readdir := Some []\<rparr>) \<and> createDbOk (exampleWorld\<lparr>readdir := Some []\<rparr>)
      \<and> useDbOk (exampleWorld\<lparr>readdir := Some []\<rparr>)"
    by (simp add: exampleWorld_def)
  from empty_listing_aborts_push [OF r, of exampleConfig False] ok r show ?thesis
    by (simp add: setupEvents_def showTablesStage_def finallyStage_def example_defs)
qed

end
